theory Spec2Isabelle
  imports Main
begin

section \<open>JavaScript values\<close>

text \<open>
  The connector stores primitive JavaScript values in its state objects. Numbers are
  restricted to integers (seconds, as \<^verbatim>\<open>Util.stringToSeconds\<close> yields them) and
  \<^verbatim>\<open>NaN\<close>; fractions, infinities and the negative zero are outside the model.
\<close>

datatype jsnumber = Num int | NaN

datatype jsval = JNull | JUndefined | JBool bool | JNumber jsnumber | JStr string

text \<open>Truthiness (\<^verbatim>\<open>ToBoolean\<close>): what \<^verbatim>\<open>if (x)\<close>, \<^verbatim>\<open>!x\<close> and \<^verbatim>\<open>x || y\<close> test.\<close>

fun truthyN :: "jsnumber \<Rightarrow> bool" where
  "truthyN (Num n) = (n \<noteq> 0)"
| "truthyN NaN = False"

fun truthy :: "jsval \<Rightarrow> bool" where
  "truthy JNull = False"
| "truthy JUndefined = False"
| "truthy (JBool b) = b"
| "truthy (JNumber n) = truthyN n"
| "truthy (JStr s) = (s \<noteq> [])"

text \<open>
  Strict equality \<^verbatim>\<open>===\<close> on primitives: equal type and equal value, except that
  \<^verbatim>\<open>NaN\<close> equals nothing, itself included.
\<close>

definition strict_eq :: "jsval \<Rightarrow> jsval \<Rightarrow> bool" where
  "strict_eq a b = (a = b \<and> a \<noteq> JNumber NaN)"

text \<open>\<^verbatim>\<open>a || b\<close>.\<close>

definition js_or :: "jsval \<Rightarrow> jsval \<Rightarrow> jsval" where
  "js_or a b = (if truthy a then a else b)"

text \<open>\<^verbatim>\<open>Math.abs\<close> and the binary minus, on numbers.\<close>

fun Math_abs :: "jsnumber \<Rightarrow> jsnumber" where
  "Math_abs (Num n) = Num \<bar>n\<bar>"
| "Math_abs NaN = NaN"

fun js_minus :: "jsnumber \<Rightarrow> jsnumber \<Rightarrow> jsnumber" where
  "js_minus (Num a) (Num b) = Num (a - b)"
| "js_minus _ _ = NaN"

text \<open>A getter documented as returning a Number returns a number or \<^verbatim>\<open>null\<close>.\<close>

fun ofNumber :: "jsnumber option \<Rightarrow> jsval" where
  "ofNumber None = JNull"
| "ofNumber (Some n) = JNumber n"

section \<open>The state objects\<close>

text \<open>
  \<^verbatim>\<open>defaultState\<close>, \<^verbatim>\<open>currentState\<close> and \<^verbatim>\<open>filteredState\<close> are objects with the
  same eight keys. A key of such an object is a value of \<open>key\<close>; \<open>stateKeys\<close> lists
  them in the order in which \<^verbatim>\<open>for (let key in currentState)\<close> and
  \<^verbatim>\<open>Object.keys(defaultState)\<close> enumerate them.
\<close>

record TrackState =
  track :: jsval
  artist :: jsval
  album :: jsval
  uniqueID :: jsval
  duration :: jsval
  currentTime :: jsval
  isPlaying :: jsval
  trackArt :: jsval

text \<open>The object \<^verbatim>\<open>getCurrentState\<close> builds has one more key.\<close>

record NewState = TrackState +
  originUrl :: jsval

datatype key = Track | Artist | Album | UniqueID | Duration | CurrentTime | IsPlaying | TrackArt

definition stateKeys :: "key list" where
  "stateKeys = [Track, Artist, Album, UniqueID, Duration, CurrentTime, IsPlaying, TrackArt]"

fun getField :: "key \<Rightarrow> 'a TrackState_scheme \<Rightarrow> jsval" where
  "getField Track s = track s"
| "getField Artist s = artist s"
| "getField Album s = album s"
| "getField UniqueID s = uniqueID s"
| "getField Duration s = duration s"
| "getField CurrentTime s = currentTime s"
| "getField IsPlaying s = isPlaying s"
| "getField TrackArt s = trackArt s"

fun setField :: "key \<Rightarrow> jsval \<Rightarrow> 'a TrackState_scheme \<Rightarrow> 'a TrackState_scheme" where
  "setField Track v s = s\<lparr>track := v\<rparr>"
| "setField Artist v s = s\<lparr>artist := v\<rparr>"
| "setField Album v s = s\<lparr>album := v\<rparr>"
| "setField UniqueID v s = s\<lparr>uniqueID := v\<rparr>"
| "setField Duration v s = s\<lparr>duration := v\<rparr>"
| "setField CurrentTime v s = s\<lparr>currentTime := v\<rparr>"
| "setField IsPlaying v s = s\<lparr>isPlaying := v\<rparr>"
| "setField TrackArt v s = s\<lparr>trackArt := v\<rparr>"

definition defaultState :: TrackState where
  "defaultState = \<lparr>track = JNull, artist = JNull, album = JNull, uniqueID = JNull,
     duration = JNull, currentTime = JNull, isPlaying = JBool True, trackArt = JNull\<rparr>"

section \<open>What the connector reads from the page\<close>

text \<open>
  The getters of a connector read the document. \<open>Page\<close> holds what each of them
  returns at one instant; all calls made while one listener runs see the same page.
  The time getters are documented as returning a Number, \<^verbatim>\<open>isPlaying\<close> and the two
  gates as returning a Boolean; \<^verbatim>\<open>getArtistTrack\<close> may return a falsy value
  (\<open>None\<close>), which the code replaces by \<^verbatim>\<open>Util.makeEmptyArtistTrack()\<close>;
  \<^verbatim>\<open>getTimeInfo\<close> returns an object.
\<close>

record ArtistTrack =
  at_artist :: jsval
  at_track :: jsval

record TimeInfo =
  ti_duration :: jsval
  ti_currentTime :: jsval

record Page =
  getTrack :: jsval
  getArtist :: jsval
  getAlbum :: jsval
  getUniqueID :: jsval
  getDuration :: "jsnumber option"
  getCurrentTime :: "jsnumber option"
  getRemainingTime :: "jsnumber option"
  getTimeInfo :: TimeInfo
  getArtistTrack :: "ArtistTrack option"
  getTrackArt :: jsval
  getOriginUrl :: jsval
  isPlaying_get :: bool
  isStateChangeAllowed :: bool
  isScrobblingAllowed :: bool

text \<open>
  The parts of a connector that do not read the page. \<^verbatim>\<open>Util\<close> and
  \<^verbatim>\<open>MetadataFilter\<close> are not among the sources, so the functions the connector calls
  on them are parameters: \<open>filterField\<close> is \<^verbatim>\<open>this.filter.filterField\<close>,
  \<open>escapeBadTimeValues\<close> is \<^verbatim>\<open>Util.escapeBadTimeValues\<close>, \<open>makeEmptyArtistTrack\<close>
  is the object \<^verbatim>\<open>Util.makeEmptyArtistTrack()\<close> returns. \<open>reactorCallback\<close> tells
  whether \<^verbatim>\<open>this.reactorCallback !== null\<close>.
\<close>

record Connector =
  filterField :: "key \<Rightarrow> jsval \<Rightarrow> jsval"
  escapeBadTimeValues :: "jsval \<Rightarrow> jsval"
  makeEmptyArtistTrack :: ArtistTrack
  isTrackArtDefault :: "jsval \<Rightarrow> bool"
  reactorCallback :: bool

section \<open>getCurrentState\<close>

definition getCurrentState :: "Connector \<Rightarrow> Page \<Rightarrow> NewState" where
  "getCurrentState c p =
    (let newState = \<lparr>track = getTrack p, artist = getArtist p, album = getAlbum p,
           uniqueID = getUniqueID p, duration = ofNumber (getDuration p),
           currentTime = ofNumber (getCurrentTime p), isPlaying = JBool (isPlaying_get p),
           trackArt = getTrackArt p, originUrl = getOriginUrl p\<rparr>;
         artistTrack = (case getArtistTrack p of Some x \<Rightarrow> x | None \<Rightarrow> makeEmptyArtistTrack c);
         newState = (if \<not> truthy (artist newState) \<and> truthy (at_artist artistTrack)
                     then newState\<lparr>artist := at_artist artistTrack\<rparr> else newState);
         newState = (if \<not> truthy (track newState) \<and> truthy (at_track artistTrack)
                     then newState\<lparr>track := at_track artistTrack\<rparr> else newState);
         newState = (if \<not> truthy (currentTime newState)
                     then (case (getRemainingTime p, getDuration p) of
                             (Some remainingTime, Some d) \<Rightarrow>
                               if truthyN remainingTime \<and> truthy (duration newState)
                               then newState\<lparr>currentTime := JNumber (js_minus d (Math_abs remainingTime))\<rparr>
                               else newState
                           | _ \<Rightarrow> newState)
                     else newState);
         timeInfo = getTimeInfo p;
         newState = (if \<not> truthy (duration newState) \<and> truthy (ti_duration timeInfo)
                     then newState\<lparr>duration := ti_duration timeInfo\<rparr> else newState);
         newState = (if \<not> truthy (currentTime newState) \<and> truthy (ti_currentTime timeInfo)
                     then newState\<lparr>currentTime := ti_currentTime timeInfo\<rparr> else newState)
     in newState)"

section \<open>The connector's own state\<close>

text \<open>
  What the reactor callback receives: \<^verbatim>\<open>resetState\<close> passes the empty object,
  \<^verbatim>\<open>stateChangedWorker\<close> passes \<^verbatim>\<open>filteredState\<close>, recorded as it is at the call.
\<close>

datatype payload = EmptyObject | Snapshot TrackState

text \<open>
  The variables closed over by the connector's functions, and three observation
  fields: \<open>reactorCalls\<close> lists the calls of the reactor callback, oldest first,
  \<open>workerRuns\<close> counts the runs of \<^verbatim>\<open>stateChangedWorker\<close>, \<open>throttledRunTimes\<close> lists
  the times at which the throttled wrapper ran it, latest first. \<open>throttleTimer\<close> is the
  state of \<^verbatim>\<open>stateChangedWorkerThrottled\<close>: the time at which its pending timer is due.
\<close>

record ConnectorState =
  currentState :: TrackState
  filteredState :: TrackState
  isStateReset :: bool
  throttleTimer :: "nat option"
  reactorCalls :: "(payload \<times> key list) list"
  workerRuns :: nat
  throttledRunTimes :: "nat list"

definition initialState :: ConnectorState where
  "initialState = \<lparr>currentState = defaultState, filteredState = defaultState,
     isStateReset = False, throttleTimer = None, reactorCalls = [], workerRuns = 0,
     throttledRunTimes = []\<rparr>"

section \<open>stateChangedWorker and filterState\<close>

text \<open>The value the loop of \<^verbatim>\<open>stateChangedWorker\<close> compares and stores for one key.\<close>

definition newValue :: "NewState \<Rightarrow> key \<Rightarrow> jsval" where
  "newValue newState k =
     (if truthy (getField k newState) \<or> strict_eq (getField k newState) (JBool False)
      then getField k newState else getField k defaultState)"

text \<open>The loop over the keys: the raw snapshot and \<^verbatim>\<open>changedFields\<close> are threaded.\<close>

fun updateFields :: "NewState \<Rightarrow> key list \<Rightarrow> TrackState \<times> key list \<Rightarrow> TrackState \<times> key list" where
  "updateFields newState [] acc = acc"
| "updateFields newState (k # ks) (cur, changedFields) =
     (let oldValue = getField k cur in
      if \<not> strict_eq (newValue newState k) oldValue
      then updateFields newState ks (setField k (newValue newState k) cur, changedFields @ [k])
      else updateFields newState ks (cur, changedFields))"

fun filterState :: "Connector \<Rightarrow> key list \<Rightarrow> ConnectorState \<Rightarrow> ConnectorState" where
  "filterState c [] s = s"
| "filterState c (field # rest) s =
     (let fieldValue = getField field (currentState s);
          fieldValue =
            (if field = Artist \<or> field = Track \<or> field = Album
             then js_or (filterField c field fieldValue) (getField field defaultState)
             else if field = CurrentTime \<or> field = Duration
             then js_or (escapeBadTimeValues c fieldValue) (getField field defaultState)
             else if field = TrackArt
             then (if isTrackArtDefault c fieldValue then JNull else fieldValue)
             else fieldValue)
      in filterState c rest (s\<lparr>filteredState := setField field fieldValue (filteredState s)\<rparr>))"

text \<open>The changed fields one run of the worker finds.\<close>

definition changedFieldsOf :: "Connector \<Rightarrow> Page \<Rightarrow> ConnectorState \<Rightarrow> key list" where
  "changedFieldsOf c p s = snd (updateFields (getCurrentState c p) stateKeys (currentState s, []))"

text \<open>
  The block between \<^verbatim>\<open>@ifdef DEBUG\<close> and \<^verbatim>\<open>@endif\<close> reports to the test
  harness and touches no variable of the connector; it is left out.
\<close>

definition stateChangedWorker :: "Connector \<Rightarrow> Page \<Rightarrow> ConnectorState \<Rightarrow> ConnectorState" where
  "stateChangedWorker c p s =
    (let newState = getCurrentState c p;
         (cur, changedFields) = updateFields newState stateKeys (currentState s, []);
         s = s\<lparr>currentState := cur, workerRuns := Suc (workerRuns s)\<rparr>
     in if length changedFields > 0
        then (let s = filterState c changedFields s
              in if reactorCallback c
                 then s\<lparr>reactorCalls := reactorCalls s @ [(Snapshot (filteredState s), changedFields)]\<rparr>
                 else s)
        else s)"

section \<open>resetState, the throttle and onStateChanged\<close>

definition resetState :: "Connector \<Rightarrow> ConnectorState \<Rightarrow> ConnectorState" where
  "resetState c s =
    (if isStateReset s then s
     else (let s = (if reactorCallback c
                    then s\<lparr>reactorCalls := reactorCalls s @ [(EmptyObject, stateKeys)]\<rparr>
                    else s)
           in s\<lparr>isStateReset := True\<rparr>))"

text \<open>
  Modelled from the spec: \<^verbatim>\<open>Util.throttle\<close>, which builds
  \<^verbatim>\<open>stateChangedWorkerThrottled\<close>, is not among the sources. The spec's words: a
  signal that is not a play/pause edge schedules a rate-limited evaluation, at most one
  per fixed window of 500 ms; signals arriving inside an active window are coalesced into
  a single trailing evaluation; there is at most one pending deferred evaluation, on one
  timer handle that is re-armed and never stacked; the window is never cancelled and
  always fires. So a call with no timer pending opens a window that ends 500 ms later, a
  call with a timer pending leaves that timer as it is, and the timer, when the event loop
  runs it at its due time or later, clears itself and runs the worker once, on the page as
  it is then. Times are in milliseconds.
\<close>

definition stateChangedWorkerThrottled :: "nat \<Rightarrow> ConnectorState \<Rightarrow> ConnectorState" where
  "stateChangedWorkerThrottled now s =
     (case throttleTimer s of
        None \<Rightarrow> s\<lparr>throttleTimer := Some (now + 500)\<rparr>
      | Some due \<Rightarrow> s)"

text \<open>
  Modelled from the spec: the timer callback that \<^verbatim>\<open>Util.throttle\<close> hands to the
  event loop, missing with it. The event loop runs it at the time \<open>now\<close>, on the page
  \<open>p\<close>; a timer is never run before it is due.
\<close>

definition throttleTimerFires :: "Connector \<Rightarrow> nat \<Rightarrow> Page \<Rightarrow> ConnectorState \<Rightarrow> ConnectorState" where
  "throttleTimerFires c now p s =
     (case throttleTimer s of
        None \<Rightarrow> s
      | Some due \<Rightarrow>
          if due \<le> now
          then stateChangedWorker c p
                 (s\<lparr>throttleTimer := None, throttledRunTimes := now # throttledRunTimes s\<rparr>)
          else s)"

definition onStateChanged :: "Connector \<Rightarrow> nat \<Rightarrow> Page \<Rightarrow> ConnectorState \<Rightarrow> ConnectorState" where
  "onStateChanged c now p s =
    (if \<not> isScrobblingAllowed p then resetState c s
     else if \<not> isStateChangeAllowed p then s
     else (let s = s\<lparr>isStateReset := False\<rparr>;
               isPlaying = JBool (isPlaying_get p)
           in if \<not> strict_eq isPlaying (TrackState.isPlaying (currentState s))
              then stateChangedWorker c p s
              else stateChangedWorkerThrottled now s))"

section \<open>The event loop\<close>

text \<open>
  What can happen to one connector: a mutation signal reaches \<^verbatim>\<open>onStateChanged\<close>,
  the event loop runs the throttle's timer, or a connector with a listener of its own
  calls \<^verbatim>\<open>resetState\<close>. The first two carry the time and the page as it is then.
\<close>

datatype event = Signal nat Page | TimerFires nat Page | ResetState

fun step :: "Connector \<Rightarrow> ConnectorState \<Rightarrow> event \<Rightarrow> ConnectorState" where
  "step c s (Signal now p) = onStateChanged c now p s"
| "step c s (TimerFires now p) = throttleTimerFires c now p s"
| "step c s ResetState = resetState c s"

definition run :: "Connector \<Rightarrow> event list \<Rightarrow> ConnectorState \<Rightarrow> ConnectorState" where
  "run c es s = foldl (step c) s es"

text \<open>A signal that passes both gates.\<close>

fun accepted :: "event \<Rightarrow> bool" where
  "accepted (Signal now p) = (isScrobblingAllowed p \<and> isStateChangeAllowed p)"
| "accepted _ = False"

text \<open>The event loop's clock never runs backwards: the times of a trace, from \<open>t\<close> on.\<close>

fun timed :: "nat \<Rightarrow> event list \<Rightarrow> bool" where
  "timed t [] = True"
| "timed t (Signal now p # es) = (t \<le> now \<and> timed now es)"
| "timed t (TimerFires now p # es) = (t \<le> now \<and> timed now es)"
| "timed t (ResetState # es) = timed t es"

text \<open>Times listed latest first, each at least 500 ms after the one before it.\<close>

fun spaced :: "nat list \<Rightarrow> bool" where
  "spaced (a # b # r) = (b + 500 \<le> a \<and> spaced (b # r))"
| "spaced _ = True"

text \<open>
  A signal that passes both gates and finds \<^verbatim>\<open>isPlaying()\<close> equal to the stored
  value: the one \<^verbatim>\<open>onStateChanged\<close> hands to the throttled worker.
\<close>

fun throttled :: "ConnectorState \<Rightarrow> event \<Rightarrow> bool" where
  "throttled s (Signal now p) =
     (isScrobblingAllowed p \<and> isStateChangeAllowed p
      \<and> isPlaying (currentState s) = JBool (isPlaying_get p))"
| "throttled s _ = False"

text \<open>
  The end of the window in which a throttled call at the time \<open>now\<close> falls: the due
  time of the pending timer, or of the timer this call arms.
\<close>

definition windowEnd :: "ConnectorState \<Rightarrow> nat \<Rightarrow> nat" where
  "windowEnd s now = (case throttleTimer s of None \<Rightarrow> now + 500 | Some due \<Rightarrow> due)"

text \<open>
  What holds of the throttle at a time \<open>t\<close> of the event loop: the throttled runs so far
  are 500 ms apart and not later than \<open>t\<close>, and a pending timer is due 500 ms or more
  after each of them.
\<close>

definition throttleInv :: "nat \<Rightarrow> ConnectorState \<Rightarrow> bool" where
  "throttleInv t s =
     (spaced (throttledRunTimes s)
      \<and> (\<forall>e \<in> set (throttledRunTimes s). e \<le> t)
      \<and> (case throttleTimer s of None \<Rightarrow> True
          | Some due \<Rightarrow> \<forall>e \<in> set (throttledRunTimes s). e + 500 \<le> due))"

text \<open>The calls of the reactor callback that \<^verbatim>\<open>resetState\<close> made.\<close>

fun isResetCall :: "payload \<times> key list \<Rightarrow> bool" where
  "isResetCall (EmptyObject, ks) = True"
| "isResetCall (Snapshot f, ks) = False"

text \<open>The \<^verbatim>\<open>isPlaying\<close> value a call of the reactor callback shows.\<close>

fun shownIsPlaying :: "payload \<times> key list \<Rightarrow> jsval" where
  "shownIsPlaying (EmptyObject, ks) = JUndefined"
| "shownIsPlaying (Snapshot f, ks) = isPlaying f"

section \<open>MetadataFilter and Util\<close>

text \<open>
  Modelled from the spec: \<^verbatim>\<open>MetadataFilter.filterField\<close> is not among the sources.
  The spec's words: a filter is an ordered chain of text transforms per field, and
  applying a filter to a field value that is absent or empty yields the field's default,
  not an empty string. \<open>transforms\<close> is the chain of one filter, as a function of the
  field and the text.
\<close>

definition MetadataFilter_filterField :: "(key \<Rightarrow> jsval \<Rightarrow> jsval) \<Rightarrow> key \<Rightarrow> jsval \<Rightarrow> jsval" where
  "MetadataFilter_filterField transforms field text =
     (if truthy text then transforms field text else getField field defaultState)"

text \<open>
  Modelled from the spec: \<^verbatim>\<open>Util.escapeBadTimeValues\<close> is not among the sources.
  The spec's words: a guard that turns a negative or NaN time into the default.
\<close>

fun Util_escapeBadTimeValues :: "jsval \<Rightarrow> jsval" where
  "Util_escapeBadTimeValues (JNumber (Num n)) = (if n < 0 then JNull else JNumber (Num n))"
| "Util_escapeBadTimeValues (JNumber NaN) = JNull"
| "Util_escapeBadTimeValues v = v"

section \<open>SongPipeline\<close>

text \<open>
  Modelled from the spec: the class \<^verbatim>\<open>SongPipeline\<close> is not among the sources, only
  its test is. The spec's words: a stage processes a track, possibly mutating it in place,
  and signals failure by rejecting; the pipeline holds the ordered sequence of stages and
  runs them strictly sequentially in registration order, each awaited before the next
  starts; if a stage fails, the pipeline aborts the remaining stages, surfaces the failure
  to the caller and does not roll back the mutations already applied.

  A stage maps the track to the track as it leaves it and to its rejection, if any.
  \<open>processFrom i\<close> runs the stages from position \<open>i\<close> on; the result is the track, the
  positions of the stages that ran, in the order in which they ran, and the rejection the
  caller receives.
\<close>

type_synonym ('song, 'err) stage = "'song \<Rightarrow> 'song \<times> 'err option"

fun processFrom :: "nat \<Rightarrow> ('song, 'err) stage list \<Rightarrow> 'song \<Rightarrow> nat list \<Rightarrow> 'song \<times> nat list \<times> 'err option" where
  "processFrom i [] song started = (song, started, None)"
| "processFrom i (st # rest) song started =
     (case st song of
        (song', Some e) \<Rightarrow> (song', started @ [i], Some e)
      | (song', None) \<Rightarrow> processFrom (Suc i) rest song' (started @ [i]))"

text \<open>
  Modelled from the spec: \<^verbatim>\<open>SongPipeline.process\<close>, missing with its class: the
  stages run from the first position on.
\<close>

definition process :: "('song, 'err) stage list \<Rightarrow> 'song \<Rightarrow> 'song \<times> nat list \<times> 'err option" where
  "process stages song = processFrom 0 stages song []"

text \<open>The track after the first \<open>n\<close> stages have each left their mutations on it.\<close>

definition mutatedBy :: "('song, 'err) stage list \<Rightarrow> nat \<Rightarrow> 'song \<Rightarrow> 'song" where
  "mutatedBy stages n song = foldl (\<lambda>t st. fst (st t)) song (take n stages)"

section \<open>Concrete connectors, pages and states\<close>

text \<open>
  The base connector: its filter has no transform of its own, \<^verbatim>\<open>isTrackArtDefault\<close>
  is the default implementation, and a reactor callback is registered.
\<close>

definition baseConnector :: Connector where
  "baseConnector = \<lparr>filterField = MetadataFilter_filterField (\<lambda>field text. text),
     escapeBadTimeValues = Util_escapeBadTimeValues,
     makeEmptyArtistTrack = \<lparr>at_artist = JNull, at_track = JNull\<rparr>,
     isTrackArtDefault = (\<lambda>url. False),
     reactorCallback = True\<rparr>"

text \<open>A connector whose filter strips every text down to the empty string.\<close>

definition strippingConnector :: Connector where
  "strippingConnector = baseConnector\<lparr>filterField :=
     MetadataFilter_filterField (\<lambda>field text. JStr [])\<rparr>"

text \<open>A page on which every getter finds nothing, and both gates are open.\<close>

definition emptyPage :: Page where
  "emptyPage = \<lparr>getTrack = JStr [], getArtist = JStr [], getAlbum = JStr [],
     getUniqueID = JNull, getDuration = None, getCurrentTime = None,
     getRemainingTime = None,
     getTimeInfo = \<lparr>ti_duration = JNull, ti_currentTime = JNull\<rparr>,
     getArtistTrack = None, getTrackArt = JNull, getOriginUrl = JStr ''https://example.org/'',
     isPlaying_get = True, isStateChangeAllowed = True, isScrobblingAllowed = True\<rparr>"

definition songPage :: Page where
  "songPage = emptyPage\<lparr>getTrack := JStr ''Song'', getArtist := JStr ''Artist'',
     getDuration := Some (Num 200), getCurrentTime := Some (Num 5)\<rparr>"

definition pausedPage :: Page where
  "pausedPage = songPage\<lparr>isPlaying_get := False\<rparr>"

definition adPage :: Page where
  "adPage = songPage\<lparr>isScrobblingAllowed := False\<rparr>"

definition unstablePage :: Page where
  "unstablePage = songPage\<lparr>isStateChangeAllowed := False\<rparr>"

text \<open>Only the remaining time, 30 seconds, is on the page.\<close>

definition remainingOnlyPage :: Page where
  "remainingOnlyPage = emptyPage\<lparr>getRemainingTime := Some (Num 30)\<rparr>"

text \<open>The duration, 200 seconds, and the remaining time, 30 seconds, are on the page.\<close>

definition remainingPage :: Page where
  "remainingPage = emptyPage\<lparr>getDuration := Some (Num 200), getRemainingTime := Some (Num 30)\<rparr>"

text \<open>The page reports a current time of zero and empty strings.\<close>

definition zeroPage :: Page where
  "zeroPage = emptyPage\<lparr>getCurrentTime := Some (Num 0), getDuration := Some (Num 0),
     getUniqueID := JStr [], getTrackArt := JStr []\<rparr>"

definition pausedZeroPage :: Page where
  "pausedZeroPage = zeroPage\<lparr>isPlaying_get := False\<rparr>"

text \<open>A connector state whose raw snapshot holds a duration of 200 seconds.\<close>

definition storedDurationState :: ConnectorState where
  "storedDurationState = initialState\<lparr>currentState := defaultState\<lparr>duration := JNumber (Num 200)\<rparr>\<rparr>"

text \<open>The state after the worker has read \<open>songPage\<close>, and after \<open>pausedPage\<close>.\<close>

definition songState :: ConnectorState where
  "songState = stateChangedWorker baseConnector songPage initialState"

definition pausedState :: ConnectorState where
  "pausedState = stateChangedWorker baseConnector pausedPage initialState"

text \<open>
  The connector is reset right after its creation; then a signal arrives while nothing is
  on the page; then the throttle's timer runs, still with nothing on the page.
\<close>

definition resetOnceState :: ConnectorState where
  "resetOnceState = resetState baseConnector initialState"

definition signalledState :: ConnectorState where
  "signalledState = onStateChanged baseConnector 0 emptyPage resetOnceState"

definition evaluatedState :: ConnectorState where
  "evaluatedState = throttleTimerFires baseConnector 500 emptyPage signalledState"

text \<open>Two stages on a track that is a list of tags: the first rejects after tagging.\<close>

definition tagThenReject :: "(string list, string) stage" where
  "tagThenReject song = (song @ [''first''], Some ''rejected'')"

definition tagOnly :: "(string list, string) stage" where
  "tagOnly song = (song @ [''second''], None)"

section \<open>Evaluating the concrete examples\<close>

lemmas page_defs = emptyPage_def songPage_def pausedPage_def adPage_def unstablePage_def
  remainingOnlyPage_def remainingPage_def zeroPage_def pausedZeroPage_def

lemmas worker_defs = stateChangedWorker_def getCurrentState_def stateKeys_def newValue_def
  strict_eq_def defaultState_def js_or_def MetadataFilter_filterField_def Let_def
  baseConnector_def initialState_def

lemma songState_value:
  "songState = \<lparr>currentState = \<lparr>track = JStr ''Song'', artist = JStr ''Artist'', album = JNull,
       uniqueID = JNull, duration = JNumber (Num 200), currentTime = JNumber (Num 5),
       isPlaying = JBool True, trackArt = JNull\<rparr>,
     filteredState = \<lparr>track = JStr ''Song'', artist = JStr ''Artist'', album = JNull,
       uniqueID = JNull, duration = JNumber (Num 200), currentTime = JNumber (Num 5),
       isPlaying = JBool True, trackArt = JNull\<rparr>,
     isStateReset = False, throttleTimer = None,
     reactorCalls = [(Snapshot \<lparr>track = JStr ''Song'', artist = JStr ''Artist'', album = JNull,
       uniqueID = JNull, duration = JNumber (Num 200), currentTime = JNumber (Num 5),
       isPlaying = JBool True, trackArt = JNull\<rparr>, [Track, Artist, Duration, CurrentTime])],
     workerRuns = 1, throttledRunTimes = []\<rparr>"
  by (simp add: songState_def page_defs worker_defs)

section \<open>Objects and keys\<close>

lemma getField_setField: "getField k (setField k' v s) = (if k = k' then v else getField k s)"
  by (cases k; cases k'; simp)

lemma key_in_stateKeys: "k \<in> set stateKeys"
  by (cases k; simp add: stateKeys_def)

lemma distinct_stateKeys: "distinct stateKeys"
  by (simp add: stateKeys_def)

section \<open>What one run of the worker stores\<close>

text \<open>The stored value is never \<^verbatim>\<open>NaN\<close>, so comparing with it is plain equality.\<close>

lemma newValue_not_NaN: "newValue ns k \<noteq> JNumber NaN"
  by (cases k; simp add: newValue_def strict_eq_def defaultState_def; fastforce)

lemma strict_eq_newValue: "strict_eq (newValue ns k) v = (v = newValue ns k)"
  using newValue_not_NaN [of ns k] by (auto simp: strict_eq_def)

lemma updateFields_fst:
  "getField k (fst (updateFields ns ks (cur, cf))) =
     (if k \<in> set ks then newValue ns k else getField k cur)"
proof (induction ks arbitrary: cur cf)
  case Nil
  show ?case by simp
next
  case (Cons a ks)
  show ?case
  proof (cases "getField a cur = newValue ns a")
    case True
    then show ?thesis
      using Cons.IH [of cur cf] by (auto simp: strict_eq_newValue)
  next
    case False
    then show ?thesis
      using Cons.IH [of "setField a (newValue ns a) cur" "cf @ [a]"]
      by (auto simp: strict_eq_newValue getField_setField)
  qed
qed

lemma updateFields_snd:
  "distinct ks \<Longrightarrow> snd (updateFields ns ks (cur, cf)) =
     cf @ filter (\<lambda>k. getField k cur \<noteq> newValue ns k) ks"
proof (induction ks arbitrary: cur cf)
  case Nil
  show ?case by simp
next
  case (Cons a ks)
  have *: "filter (\<lambda>k. getField k (setField a v cur) \<noteq> newValue ns k) ks
         = filter (\<lambda>k. getField k cur \<noteq> newValue ns k) ks" for v
    using Cons.prems by (intro filter_cong) (auto simp: getField_setField)
  show ?case using Cons.prems
    by (simp add: Let_def Cons.IH strict_eq_newValue *)
qed

lemma filterState_currentState: "currentState (filterState c fs s) = currentState s"
  by (induction fs arbitrary: s) (simp_all add: Let_def)

lemma filterState_others:
  "isStateReset (filterState c fs s) = isStateReset s
   \<and> throttleTimer (filterState c fs s) = throttleTimer s
   \<and> reactorCalls (filterState c fs s) = reactorCalls s
   \<and> workerRuns (filterState c fs s) = workerRuns s
   \<and> throttledRunTimes (filterState c fs s) = throttledRunTimes s"
  by (induction fs arbitrary: s) (simp_all add: Let_def)

lemma worker_currentState_field:
  "getField k (currentState (stateChangedWorker c p s)) = newValue (getCurrentState c p) k"
  using updateFields_fst [of k "getCurrentState c p" stateKeys "currentState s" "[]"]
  by (simp add: stateChangedWorker_def Let_def split_beta filterState_currentState key_in_stateKeys)

lemma worker_others:
  "isStateReset (stateChangedWorker c p s) = isStateReset s
   \<and> throttleTimer (stateChangedWorker c p s) = throttleTimer s
   \<and> workerRuns (stateChangedWorker c p s) = Suc (workerRuns s)
   \<and> throttledRunTimes (stateChangedWorker c p s) = throttledRunTimes s"
  by (simp add: stateChangedWorker_def Let_def split_beta filterState_others)

lemma changedFieldsOf_eq:
  "changedFieldsOf c p s =
     filter (\<lambda>k. getField k (currentState s) \<noteq> newValue (getCurrentState c p) k) stateKeys"
  by (simp add: changedFieldsOf_def updateFields_snd distinct_stateKeys)

lemma worker_unfold:
  "stateChangedWorker c p s =
    (let s1 = s\<lparr>currentState := fst (updateFields (getCurrentState c p) stateKeys (currentState s, [])),
                 workerRuns := Suc (workerRuns s)\<rparr>
     in if changedFieldsOf c p s = [] then s1
        else (let s2 = filterState c (changedFieldsOf c p s) s1
              in if reactorCallback c
                 then s2\<lparr>reactorCalls := reactorCalls s2 @ [(Snapshot (filteredState s2), changedFieldsOf c p s)]\<rparr>
                 else s2))"
  by (simp add: stateChangedWorker_def changedFieldsOf_def Let_def split_beta)

lemma worker_no_change:
  assumes "changedFieldsOf c p s = []"
  shows "reactorCalls (stateChangedWorker c p s) = reactorCalls s"
    and "filteredState (stateChangedWorker c p s) = filteredState s"
  using assms by (simp_all add: worker_unfold [of c p s] Let_def)

lemma worker_reports:
  assumes "changedFieldsOf c p s \<noteq> []" and "reactorCallback c"
  shows "reactorCalls (stateChangedWorker c p s) =
           reactorCalls s @ [(Snapshot (filteredState (stateChangedWorker c p s)), changedFieldsOf c p s)]"
  using assms by (simp add: worker_unfold [of c p s] Let_def filterState_others)

lemma changedFieldsOf_flag: "changedFieldsOf c p (s\<lparr>isStateReset := b\<rparr>) = changedFieldsOf c p s"
  by (simp add: changedFieldsOf_def)

lemma newValue_falsy:
  "\<not> truthy (getField k ns) \<Longrightarrow> getField k ns \<noteq> JBool False \<Longrightarrow> newValue ns k = getField k defaultState"
  by (simp add: newValue_def strict_eq_def)

lemma newValue_genuine:
  "truthy (getField k ns) \<or> getField k ns = JBool False \<Longrightarrow> newValue ns k = getField k ns"
  by (auto simp: newValue_def strict_eq_def)

lemma default_not_isPlaying: "k \<noteq> IsPlaying \<Longrightarrow> getField k defaultState = JNull"
  by (cases k) (simp_all add: defaultState_def)

text \<open>An assignment under a condition, as an update of the one field.\<close>

lemma if_update_artist:
  "(if b then r\<lparr>artist := v\<rparr> else r) = r\<lparr>artist := (if b then v else artist r)\<rparr>"
  by simp

lemma if_update_track:
  "(if b then r\<lparr>track := v\<rparr> else r) = r\<lparr>track := (if b then v else track r)\<rparr>"
  by simp

lemma if_update_duration:
  "(if b then r\<lparr>duration := v\<rparr> else r) = r\<lparr>duration := (if b then v else duration r)\<rparr>"
  by simp

lemma if_update_currentTime:
  "(if b then r\<lparr>currentTime := v\<rparr> else r) = r\<lparr>currentTime := (if b then v else currentTime r)\<rparr>"
  by simp

lemma getCurrentState_isPlaying: "isPlaying (getCurrentState c p) = JBool (isPlaying_get p)"
  unfolding getCurrentState_def if_update_artist if_update_track if_update_duration
    if_update_currentTime
  apply (simp only: Let_def)
  apply (simp split: option.split jsnumber.split)
  done

lemma newValue_isPlaying: "newValue (getCurrentState c p) IsPlaying = JBool (isPlaying_get p)"
  by (cases "isPlaying_get p") (simp_all add: newValue_genuine getCurrentState_isPlaying)

lemma worker_isPlaying:
  "isPlaying (currentState (stateChangedWorker c p s)) = JBool (isPlaying_get p)"
  using worker_currentState_field [of IsPlaying c p s] by (simp add: newValue_isPlaying)

section \<open>What filterState stores\<close>

lemma filterState_filtered_field:
  "getField k (filteredState (filterState c fs s)) =
     (if k \<in> set fs
      then (if k = Artist \<or> k = Track \<or> k = Album
            then js_or (filterField c k (getField k (currentState s))) (getField k defaultState)
            else if k = CurrentTime \<or> k = Duration
            then js_or (escapeBadTimeValues c (getField k (currentState s))) (getField k defaultState)
            else if k = TrackArt
            then (if isTrackArtDefault c (getField k (currentState s)) then JNull
                  else getField k (currentState s))
            else getField k (currentState s))
      else getField k (filteredState s))"
proof (induction fs arbitrary: s)
  case Nil
  show ?case by simp
next
  case (Cons f fs)
  show ?case
  proof (cases "k \<in> set fs")
    case True
    then show ?thesis by (simp add: Let_def Cons.IH)
  next
    case False
    then show ?thesis
      by (simp add: Let_def Cons.IH getField_setField del: getField.simps setField.simps)
  qed
qed

lemma worker_filtered_isPlaying:
  assumes "IsPlaying \<in> set (changedFieldsOf c p s)"
  shows "isPlaying (filteredState (stateChangedWorker c p s)) = JBool (isPlaying_get p)"
proof -
  let ?s1 = "s\<lparr>currentState := fst (updateFields (getCurrentState c p) stateKeys (currentState s, [])),
                 workerRuns := Suc (workerRuns s)\<rparr>"
  have ne: "changedFieldsOf c p s \<noteq> []" using assms by auto
  have "filteredState (stateChangedWorker c p s) = filteredState (filterState c (changedFieldsOf c p s) ?s1)"
    using ne by (simp add: worker_unfold [of c p s] Let_def)
  moreover have "getField IsPlaying (filteredState (filterState c (changedFieldsOf c p s) ?s1))
      = getField IsPlaying (currentState ?s1)"
    using assms by (simp add: filterState_filtered_field del: getField.simps)
  moreover have "getField IsPlaying (currentState ?s1) = newValue (getCurrentState c p) IsPlaying"
    by (simp add: updateFields_fst key_in_stateKeys del: getField.simps)
  ultimately show ?thesis by (simp add: newValue_isPlaying)
qed

text \<open>
  C8: for a changed \<^verbatim>\<open>artist\<close>, \<^verbatim>\<open>track\<close> or \<^verbatim>\<open>album\<close> field, when the filter
  returns the empty string \<^verbatim>\<open>filterState\<close> stores \<^verbatim>\<open>null\<close>; when the raw value is
  absent or empty and the filter is a \<^verbatim>\<open>MetadataFilter\<close>, whatever its transforms, it
  stores \<^verbatim>\<open>null\<close>; and what it stores is never the empty string.
\<close>

theorem filterState_never_stores_empty_string:
  assumes "field = Artist \<or> field = Track \<or> field = Album"
    and "field \<in> set changedFields"
  shows "(filterField c field (getField field (currentState s)) = JStr [] \<longrightarrow>
            getField field (filteredState (filterState c changedFields s)) = JNull)
       \<and> (\<not> truthy (getField field (currentState s)) \<longrightarrow>
            getField field (filteredState
              (filterState (c\<lparr>filterField := MetadataFilter_filterField transforms\<rparr>) changedFields s)) = JNull)
       \<and> getField field (filteredState (filterState c changedFields s)) \<noteq> JStr []"
proof -
  have d: "getField field defaultState = JNull"
    using assms(1) by (auto simp: defaultState_def)
  have f: "getField field (filteredState (filterState c' changedFields s))
             = js_or (filterField c' field (getField field (currentState s))) JNull" for c'
    using assms by (simp add: filterState_filtered_field d del: getField.simps)
  show ?thesis
    by (auto simp: f js_or_def MetadataFilter_filterField_def d simp del: getField.simps)
qed

theorem filterState_never_stores_empty_string_witness:
  "Track \<in> set [Track, Artist]
   \<and> filterField strippingConnector Track (getField Track (currentState songState)) = JStr []
   \<and> getField Track (filteredState (filterState strippingConnector [Track, Artist] songState)) = JNull
   \<and> \<not> truthy (getField Album (currentState songState))
   \<and> getField Album (filteredState
        (filterState (baseConnector\<lparr>filterField := MetadataFilter_filterField (\<lambda>field text. text)\<rparr>)
           [Album] songState)) = JNull"
proof -
  have h: "filterField strippingConnector Track (getField Track (currentState songState)) = JStr []"
    "\<not> truthy (getField Album (currentState songState))"
    by (simp_all add: strippingConnector_def baseConnector_def songState_value
        MetadataFilter_filterField_def)
  show ?thesis
    using filterState_never_stores_empty_string [of Track "[Track, Artist]" strippingConnector songState]
      filterState_never_stores_empty_string [of Album "[Album]" baseConnector songState "\<lambda>field text. text"]
      h
    by simp
qed

section \<open>resetState and the snapshots\<close>

text \<open>
  C1, as the code has it: \<^verbatim>\<open>resetState\<close>, called directly or by the gate of
  \<^verbatim>\<open>onStateChanged\<close> that finds scrobbling disallowed, leaves the raw snapshot and the
  filtered snapshot as they were. The all-default values are what both snapshots hold
  when the connector is created, and what a reset that is not suppressed sends to a
  registered reactor callback is the empty object with the eight keys.
\<close>

theorem resetState_keeps_snapshots:
  "currentState (resetState c s) = currentState s
   \<and> filteredState (resetState c s) = filteredState s
   \<and> (\<not> isScrobblingAllowed p \<longrightarrow>
        currentState (onStateChanged c now p s) = currentState s
        \<and> filteredState (onStateChanged c now p s) = filteredState s)
   \<and> (\<not> isStateReset s \<and> reactorCallback c \<longrightarrow>
        reactorCalls (resetState c s) = reactorCalls s @ [(EmptyObject, stateKeys)])
   \<and> currentState initialState = defaultState
   \<and> filteredState initialState = defaultState"
  by (simp add: resetState_def onStateChanged_def initialState_def)

theorem resetState_keeps_snapshots_witness:
  "\<not> isScrobblingAllowed adPage \<and> \<not> isStateReset songState \<and> reactorCallback baseConnector
   \<and> currentState (onStateChanged baseConnector 0 adPage songState) = currentState songState
   \<and> filteredState (resetState baseConnector songState) = filteredState songState
   \<and> reactorCalls (resetState baseConnector songState) = reactorCalls songState @ [(EmptyObject, stateKeys)]"
proof -
  have h: "\<not> isScrobblingAllowed adPage" "\<not> isStateReset songState" "reactorCallback baseConnector"
    by (simp_all add: page_defs songState_value baseConnector_def)
  show ?thesis
    using resetState_keeps_snapshots [of baseConnector songState adPage 0] h by simp
qed

text \<open>
  C1 as stated fails: after the worker has read a page with a song on it, a reset, direct
  or through the gate, leaves snapshots that are not the all-default state.
\<close>

theorem resetState_default_counterexample:
  "currentState (resetState baseConnector songState) \<noteq> defaultState
   \<and> filteredState (resetState baseConnector songState) \<noteq> defaultState
   \<and> currentState (onStateChanged baseConnector 0 adPage songState) \<noteq> defaultState
   \<and> filteredState (onStateChanged baseConnector 0 adPage songState) \<noteq> defaultState"
  by (simp add: songState_value page_defs resetState_def onStateChanged_def defaultState_def
      baseConnector_def)

section \<open>The current time derived from the remaining time\<close>

lemma getCurrentState_currentTime:
  assumes "\<not> truthy (ofNumber (getCurrentTime p))"
    and "getDuration p = Some (Num d)" and "getRemainingTime p = Some (Num r)"
    and "d \<noteq> 0" and "r \<noteq> 0" and "d - \<bar>r\<bar> \<noteq> 0"
  shows "currentTime (getCurrentState c p) = JNumber (Num (d - \<bar>r\<bar>))"
  using assms by (simp add: getCurrentState_def Let_def)

text \<open>
  C3, as the code has it: when the current-time getter finds nothing and, in the same
  evaluation, the duration getter returns \<open>d\<close> and the remaining-time getter returns
  \<open>r\<close>, both not zero and with \<open>d - \<bar>r\<bar>\<close> not zero, the resolved state and the raw
  snapshot the worker stores have the current time \<open>d - \<bar>r\<bar>\<close>, whatever the raw snapshot
  held before: 170 for a duration of 200 and a remaining time of 30.
\<close>

theorem currentTime_from_fresh_duration:
  assumes "\<not> truthy (ofNumber (getCurrentTime p))"
    and "getDuration p = Some (Num d)" and "getRemainingTime p = Some (Num r)"
    and "d \<noteq> 0" and "r \<noteq> 0" and "d - \<bar>r\<bar> \<noteq> 0"
  shows "currentTime (getCurrentState c p) = JNumber (Num (d - \<bar>r\<bar>))
         \<and> currentTime (currentState (stateChangedWorker c p s)) = JNumber (Num (d - \<bar>r\<bar>))"
proof -
  have a: "currentTime (getCurrentState c p) = JNumber (Num (d - \<bar>r\<bar>))"
    using assms by (rule getCurrentState_currentTime)
  have "getField CurrentTime (currentState (stateChangedWorker c p s))
          = newValue (getCurrentState c p) CurrentTime"
    by (rule worker_currentState_field)
  also have "\<dots> = JNumber (Num (d - \<bar>r\<bar>))"
    using a assms(6) by (simp add: newValue_def)
  finally show ?thesis using a by simp
qed

theorem currentTime_from_fresh_duration_witness:
  "\<not> truthy (ofNumber (getCurrentTime remainingPage))
   \<and> getDuration remainingPage = Some (Num 200) \<and> getRemainingTime remainingPage = Some (Num 30)
   \<and> currentTime (getCurrentState baseConnector remainingPage) = JNumber (Num 170)
   \<and> currentTime (currentState (stateChangedWorker baseConnector remainingPage storedDurationState))
       = JNumber (Num 170)"
proof -
  have h: "\<not> truthy (ofNumber (getCurrentTime remainingPage))"
    "getDuration remainingPage = Some (Num 200)" "getRemainingTime remainingPage = Some (Num 30)"
    by (simp_all add: page_defs)
  show ?thesis
    using currentTime_from_fresh_duration [OF h, of baseConnector storedDurationState] h by simp
qed

text \<open>
  C3 as stated fails: with the duration 200 only in the stored raw snapshot and not on the
  page, a remaining time of 30 gives no current time; the worker stores \<^verbatim>\<open>null\<close>.
\<close>

theorem currentTime_from_stored_duration_counterexample:
  "getCurrentTime remainingOnlyPage = None \<and> getDuration remainingOnlyPage = None
   \<and> getRemainingTime remainingOnlyPage = Some (Num 30)
   \<and> duration (currentState storedDurationState) = JNumber (Num 200)
   \<and> currentTime (getCurrentState baseConnector remainingOnlyPage) \<noteq> JNumber (Num 170)
   \<and> currentTime (currentState (stateChangedWorker baseConnector remainingOnlyPage storedDurationState))
       = JNull"
  by (simp add: page_defs worker_defs storedDurationState_def)

section \<open>The two gates of onStateChanged\<close>

text \<open>
  C4: when \<^verbatim>\<open>isScrobblingAllowed()\<close> is false, \<^verbatim>\<open>onStateChanged\<close> does what
  \<^verbatim>\<open>resetState\<close> does and nothing else. The reset flag is set afterwards; a registered
  reactor callback receives the empty object with the eight keys when the flag was down,
  and is not called when the flag was up already or when none is registered; nothing else
  of the connector's state changes: the worker does not run, no timer is armed and the
  snapshots stay. Otherwise, when \<^verbatim>\<open>isStateChangeAllowed()\<close> is false, the
  connector's state is left exactly as it was: no evaluation and no reset.
\<close>

theorem onStateChanged_gates:
  "(\<not> isScrobblingAllowed p \<longrightarrow>
       onStateChanged c now p s = resetState c s
       \<and> isStateReset (onStateChanged c now p s)
       \<and> (\<not> isStateReset s \<and> reactorCallback c \<longrightarrow>
            reactorCalls (onStateChanged c now p s) = reactorCalls s @ [(EmptyObject, stateKeys)])
       \<and> (isStateReset s \<or> \<not> reactorCallback c \<longrightarrow>
            reactorCalls (onStateChanged c now p s) = reactorCalls s)
       \<and> onStateChanged c now p s
            = s\<lparr>isStateReset := True,
                reactorCalls := (if \<not> isStateReset s \<and> reactorCallback c
                                 then reactorCalls s @ [(EmptyObject, stateKeys)]
                                 else reactorCalls s)\<rparr>
       \<and> workerRuns (onStateChanged c now p s) = workerRuns s
       \<and> throttleTimer (onStateChanged c now p s) = throttleTimer s
       \<and> throttledRunTimes (onStateChanged c now p s) = throttledRunTimes s
       \<and> currentState (onStateChanged c now p s) = currentState s
       \<and> filteredState (onStateChanged c now p s) = filteredState s)
   \<and> (isScrobblingAllowed p \<and> \<not> isStateChangeAllowed p \<longrightarrow> onStateChanged c now p s = s)"
  by (auto simp: onStateChanged_def resetState_def)

theorem onStateChanged_gates_witness:
  "\<not> isScrobblingAllowed adPage
   \<and> \<not> isStateReset songState \<and> reactorCallback baseConnector
   \<and> onStateChanged baseConnector 7 adPage songState = resetState baseConnector songState
   \<and> isStateReset (onStateChanged baseConnector 7 adPage songState)
   \<and> reactorCalls (onStateChanged baseConnector 7 adPage songState)
        = reactorCalls songState @ [(EmptyObject, stateKeys)]
   \<and> isStateReset resetOnceState
   \<and> reactorCalls (onStateChanged baseConnector 8 adPage resetOnceState) = reactorCalls resetOnceState
   \<and> workerRuns (onStateChanged baseConnector 7 adPage songState) = workerRuns songState
   \<and> throttleTimer (onStateChanged baseConnector 7 adPage songState) = throttleTimer songState
   \<and> isScrobblingAllowed unstablePage \<and> \<not> isStateChangeAllowed unstablePage
   \<and> onStateChanged baseConnector 7 unstablePage songState = songState"
proof -
  have h: "\<not> isScrobblingAllowed adPage" "isScrobblingAllowed unstablePage \<and> \<not> isStateChangeAllowed unstablePage"
    by (simp_all add: page_defs)
  have f: "\<not> isStateReset songState \<and> reactorCallback baseConnector"
    by (simp add: songState_value baseConnector_def)
  have r: "isStateReset resetOnceState"
    by (simp add: resetOnceState_def resetState_def)
  then have r': "isStateReset resetOnceState \<or> \<not> reactorCallback baseConnector" by simp
  note a = onStateChanged_gates [of adPage baseConnector 7 songState, THEN conjunct1, THEN mp, OF h(1)]
  note b = onStateChanged_gates [of adPage baseConnector 8 resetOnceState, THEN conjunct1, THEN mp, OF h(1)]
  note u = onStateChanged_gates [of unstablePage baseConnector 7 songState, THEN conjunct2, THEN mp, OF h(2)]
  have a3: "reactorCalls (onStateChanged baseConnector 7 adPage songState)
        = reactorCalls songState @ [(EmptyObject, stateKeys)]"
    using a [THEN conjunct2, THEN conjunct2, THEN conjunct1, THEN mp, OF f] .
  have b4: "reactorCalls (onStateChanged baseConnector 8 adPage resetOnceState) = reactorCalls resetOnceState"
    using b [THEN conjunct2, THEN conjunct2, THEN conjunct2, THEN conjunct1, THEN mp, OF r'] .
  show ?thesis
    using h f r a [THEN conjunct1] a [THEN conjunct2, THEN conjunct1] a3 b4
      a [THEN conjunct2, THEN conjunct2, THEN conjunct2, THEN conjunct2, THEN conjunct2, THEN conjunct1]
      a [THEN conjunct2, THEN conjunct2, THEN conjunct2, THEN conjunct2, THEN conjunct2, THEN conjunct2, THEN conjunct1]
      u
    by blast
qed

section \<open>Evaluating twice\<close>

lemma worker_stable_changes:
  "changedFieldsOf c p (stateChangedWorker c p s) = []"
  by (simp add: changedFieldsOf_eq worker_currentState_field)

lemma updateFields_fst_stable:
  "\<forall>k\<in>set ks. getField k cur = newValue ns k \<Longrightarrow> updateFields ns ks (cur, cf) = (cur, cf)"
  by (induction ks arbitrary: cur cf) (simp_all add: strict_eq_newValue)

lemma worker_stable:
  "stateChangedWorker c p (stateChangedWorker c p s)
     = (stateChangedWorker c p s)\<lparr>workerRuns := Suc (workerRuns (stateChangedWorker c p s))\<rparr>"
proof -
  let ?s1 = "stateChangedWorker c p s"
  have "updateFields (getCurrentState c p) stateKeys (currentState ?s1, [])
          = (currentState ?s1, [])"
    by (rule updateFields_fst_stable) (simp add: worker_currentState_field)
  then show ?thesis
    by (simp add: worker_unfold [of c p ?s1] worker_stable_changes Let_def)
qed

text \<open>
  C7: when the worker runs twice in succession on the same page, with the same connector,
  the second run finds no changed field, leaves the raw and the filtered snapshot as the
  first run left them and does not call the reactor callback.
\<close>

theorem worker_twice_is_noop:
  "changedFieldsOf c p (stateChangedWorker c p s) = []
   \<and> currentState (stateChangedWorker c p (stateChangedWorker c p s))
        = currentState (stateChangedWorker c p s)
   \<and> filteredState (stateChangedWorker c p (stateChangedWorker c p s))
        = filteredState (stateChangedWorker c p s)
   \<and> reactorCalls (stateChangedWorker c p (stateChangedWorker c p s))
        = reactorCalls (stateChangedWorker c p s)"
  by (simp add: worker_stable worker_stable_changes)

theorem worker_twice_is_noop_witness:
  "changedFieldsOf baseConnector songPage songState = []
   \<and> currentState (stateChangedWorker baseConnector songPage songState) = currentState songState
   \<and> filteredState (stateChangedWorker baseConnector songPage songState) = filteredState songState
   \<and> reactorCalls (stateChangedWorker baseConnector songPage songState) = reactorCalls songState
   \<and> length (reactorCalls songState) = 1"
  using worker_twice_is_noop [of baseConnector songPage initialState]
  by (simp add: songState_def [symmetric]) (simp add: songState_value)

section \<open>Falsy values become the default\<close>

text \<open>
  C10: a resolved value that is falsy and not \<^verbatim>\<open>false\<close> (the number 0, the empty
  string, \<^verbatim>\<open>null\<close>, \<^verbatim>\<open>undefined\<close>, \<^verbatim>\<open>NaN\<close>) is stored as the default of its
  field, which is \<^verbatim>\<open>null\<close> for every field but \<^verbatim>\<open>isPlaying\<close>; when the field held
  its default before, it is not among the changed fields; when every field either holds
  its default and resolves to such a value, or resolves to a genuine value strictly equal
  to the stored one, nothing has changed and the reactor callback is not called; and
  \<^verbatim>\<open>isPlaying() === false\<close> is stored as \<^verbatim>\<open>false\<close>.
\<close>

theorem worker_substitutes_default_for_falsy:
  "(\<not> truthy (getField k (getCurrentState c p)) \<and> getField k (getCurrentState c p) \<noteq> JBool False \<longrightarrow>
      getField k (currentState (stateChangedWorker c p s)) = getField k defaultState
      \<and> (k \<noteq> IsPlaying \<longrightarrow> getField k (currentState (stateChangedWorker c p s)) = JNull)
      \<and> (getField k (currentState s) = getField k defaultState \<longrightarrow> k \<notin> set (changedFieldsOf c p s)))
   \<and> ((\<forall>k'. (truthy (getField k' (getCurrentState c p)) \<or> getField k' (getCurrentState c p) = JBool False)
                \<and> strict_eq (getField k' (getCurrentState c p)) (getField k' (currentState s))
              \<or> \<not> truthy (getField k' (getCurrentState c p))
                \<and> getField k' (getCurrentState c p) \<noteq> JBool False
                \<and> getField k' (currentState s) = getField k' defaultState) \<longrightarrow>
        changedFieldsOf c p s = []
        \<and> reactorCalls (stateChangedWorker c p s) = reactorCalls s
        \<and> filteredState (stateChangedWorker c p s) = filteredState s)
   \<and> (\<not> isPlaying_get p \<longrightarrow> isPlaying (currentState (stateChangedWorker c p s)) = JBool False)"
proof (intro conjI impI)
  assume a: "\<not> truthy (getField k (getCurrentState c p)) \<and> getField k (getCurrentState c p) \<noteq> JBool False"
  then have nv: "newValue (getCurrentState c p) k = getField k defaultState"
    by (simp add: newValue_falsy)
  show d: "getField k (currentState (stateChangedWorker c p s)) = getField k defaultState"
    by (simp add: worker_currentState_field nv)
  show "getField k (currentState (stateChangedWorker c p s)) = JNull" if "k \<noteq> IsPlaying"
    using d that by (simp add: default_not_isPlaying)
  show "k \<notin> set (changedFieldsOf c p s)" if "getField k (currentState s) = getField k defaultState"
    using that nv by (simp add: changedFieldsOf_eq)
next
  assume a: "\<forall>k'. (truthy (getField k' (getCurrentState c p)) \<or> getField k' (getCurrentState c p) = JBool False)
                \<and> strict_eq (getField k' (getCurrentState c p)) (getField k' (currentState s))
              \<or> \<not> truthy (getField k' (getCurrentState c p))
                \<and> getField k' (getCurrentState c p) \<noteq> JBool False
                \<and> getField k' (currentState s) = getField k' defaultState"
  have "getField k' (currentState s) = newValue (getCurrentState c p) k'" for k'
    using a [rule_format, of k']
    by (auto simp: newValue_falsy newValue_genuine strict_eq_def)
  then show e: "changedFieldsOf c p s = []"
    by (simp add: changedFieldsOf_eq)
  show "reactorCalls (stateChangedWorker c p s) = reactorCalls s"
    using e by (rule worker_no_change)
  show "filteredState (stateChangedWorker c p s) = filteredState s"
    using e by (rule worker_no_change)
next
  assume "\<not> isPlaying_get p"
  then have "newValue (getCurrentState c p) IsPlaying = JBool False"
    by (simp add: newValue_genuine getCurrentState_isPlaying)
  then show "isPlaying (currentState (stateChangedWorker c p s)) = JBool False"
    using worker_currentState_field [of IsPlaying c p s] by simp
qed

lemma getCurrentState_zeroPage:
  "getCurrentState baseConnector zeroPage =
     \<lparr>track = JStr [], artist = JStr [], album = JStr [], uniqueID = JStr [],
      duration = JNumber (Num 0), currentTime = JNumber (Num 0), isPlaying = JBool True,
      trackArt = JStr [], originUrl = JStr ''https://example.org/''\<rparr>"
  by (simp add: page_defs getCurrentState_def baseConnector_def Let_def)

theorem worker_substitutes_default_for_falsy_witness:
  "getField CurrentTime (getCurrentState baseConnector zeroPage) = JNumber (Num 0)
   \<and> getField CurrentTime (currentState (stateChangedWorker baseConnector zeroPage initialState)) = JNull
   \<and> CurrentTime \<notin> set (changedFieldsOf baseConnector zeroPage initialState)
   \<and> track (getCurrentState baseConnector zeroPage) = JStr []
   \<and> changedFieldsOf baseConnector zeroPage initialState = []
   \<and> reactorCalls (stateChangedWorker baseConnector zeroPage initialState) = []
   \<and> \<not> isPlaying_get pausedZeroPage
   \<and> isPlaying (currentState (stateChangedWorker baseConnector pausedZeroPage initialState)) = JBool False"
proof -
  have h1: "\<not> truthy (getField CurrentTime (getCurrentState baseConnector zeroPage))
      \<and> getField CurrentTime (getCurrentState baseConnector zeroPage) \<noteq> JBool False"
    "getField CurrentTime (currentState initialState) = getField CurrentTime defaultState"
    "CurrentTime \<noteq> IsPlaying"
    by (simp_all add: getCurrentState_zeroPage initialState_def)
  have h2: "\<forall>k'. (truthy (getField k' (getCurrentState baseConnector zeroPage))
                   \<or> getField k' (getCurrentState baseConnector zeroPage) = JBool False)
                \<and> strict_eq (getField k' (getCurrentState baseConnector zeroPage))
                     (getField k' (currentState initialState))
              \<or> \<not> truthy (getField k' (getCurrentState baseConnector zeroPage))
                \<and> getField k' (getCurrentState baseConnector zeroPage) \<noteq> JBool False
                \<and> getField k' (currentState initialState) = getField k' defaultState"
  proof
    fix k'
    show "(truthy (getField k' (getCurrentState baseConnector zeroPage))
                   \<or> getField k' (getCurrentState baseConnector zeroPage) = JBool False)
                \<and> strict_eq (getField k' (getCurrentState baseConnector zeroPage))
                     (getField k' (currentState initialState))
              \<or> \<not> truthy (getField k' (getCurrentState baseConnector zeroPage))
                \<and> getField k' (getCurrentState baseConnector zeroPage) \<noteq> JBool False
                \<and> getField k' (currentState initialState) = getField k' defaultState"
      by (cases k') (simp_all add: getCurrentState_zeroPage initialState_def defaultState_def
          strict_eq_def)
  qed
  have h3: "\<not> isPlaying_get pausedZeroPage"
    by (simp add: page_defs)
  show ?thesis
    using worker_substitutes_default_for_falsy [of CurrentTime baseConnector zeroPage initialState]
      worker_substitutes_default_for_falsy [of CurrentTime baseConnector pausedZeroPage initialState]
      h1 h2 h3
    by (simp add: getCurrentState_zeroPage initialState_def defaultState_def)
qed

section \<open>Play and pause edges\<close>

lemma edge_changes_isPlaying:
  "isPlaying (currentState s) \<noteq> JBool (isPlaying_get p) \<Longrightarrow> IsPlaying \<in> set (changedFieldsOf c p s)"
  by (simp add: changedFieldsOf_eq newValue_isPlaying key_in_stateKeys)

lemma edge_step:
  assumes "isScrobblingAllowed p" and "isStateChangeAllowed p"
    and "isPlaying (currentState s) \<noteq> JBool (isPlaying_get p)"
  shows "onStateChanged c now p s = stateChangedWorker c p (s\<lparr>isStateReset := False\<rparr>)"
    and "workerRuns (onStateChanged c now p s) = Suc (workerRuns s)"
    and "throttleTimer (onStateChanged c now p s) = throttleTimer s"
    and "throttledRunTimes (onStateChanged c now p s) = throttledRunTimes s"
    and "isPlaying (currentState (onStateChanged c now p s)) = JBool (isPlaying_get p)"
    and "reactorCallback c \<Longrightarrow> reactorCalls (onStateChanged c now p s) =
           reactorCalls s @ [(Snapshot (filteredState (onStateChanged c now p s)),
                              changedFieldsOf c p s)]"
    and "isPlaying (filteredState (onStateChanged c now p s)) = JBool (isPlaying_get p)"
    and "IsPlaying \<in> set (changedFieldsOf c p s)"
proof -
  let ?s0 = "s\<lparr>isStateReset := False\<rparr>"
  show a: "onStateChanged c now p s = stateChangedWorker c p ?s0"
    using assms by (auto simp: onStateChanged_def Let_def strict_eq_def)
  show "workerRuns (onStateChanged c now p s) = Suc (workerRuns s)"
    "throttleTimer (onStateChanged c now p s) = throttleTimer s"
    "throttledRunTimes (onStateChanged c now p s) = throttledRunTimes s"
    by (simp_all add: a worker_others)
  show "isPlaying (currentState (onStateChanged c now p s)) = JBool (isPlaying_get p)"
    by (simp add: a worker_isPlaying)
  have e: "IsPlaying \<in> set (changedFieldsOf c p ?s0)"
    using assms(3) by (intro edge_changes_isPlaying) simp
  then show "IsPlaying \<in> set (changedFieldsOf c p s)"
    by (simp add: changedFieldsOf_flag)
  show "isPlaying (filteredState (onStateChanged c now p s)) = JBool (isPlaying_get p)"
    using e by (simp add: a worker_filtered_isPlaying)
  show "reactorCalls (onStateChanged c now p s) =
           reactorCalls s @ [(Snapshot (filteredState (onStateChanged c now p s)),
                              changedFieldsOf c p s)]" if "reactorCallback c"
  proof -
    have "changedFieldsOf c p ?s0 \<noteq> []" using e by auto
    then show ?thesis
      using worker_reports [of c p ?s0] that by (simp add: a changedFieldsOf_flag)
  qed
qed

text \<open>
  C5: a signal that passes both gates and finds \<^verbatim>\<open>isPlaying()\<close> different from the
  stored \<^verbatim>\<open>currentState.isPlaying\<close> runs the worker at once, inside
  \<^verbatim>\<open>onStateChanged\<close>, and leaves the throttle's timer alone; the raw snapshot then
  holds the new value and a registered reactor callback is called once, with a filtered
  snapshot that shows it. So from a paused state the signals play, pause, play, at any
  three times, give three runs of the worker and three calls of the reactor callback,
  showing \<^verbatim>\<open>true\<close>, \<^verbatim>\<open>false\<close>, \<^verbatim>\<open>true\<close> in this order.
\<close>

theorem play_pause_edges_bypass_throttle:
  "(isScrobblingAllowed p \<and> isStateChangeAllowed p
      \<and> isPlaying (currentState s) \<noteq> JBool (isPlaying_get p) \<longrightarrow>
        onStateChanged c now p s = stateChangedWorker c p (s\<lparr>isStateReset := False\<rparr>)
        \<and> workerRuns (onStateChanged c now p s) = Suc (workerRuns s)
        \<and> throttleTimer (onStateChanged c now p s) = throttleTimer s
        \<and> throttledRunTimes (onStateChanged c now p s) = throttledRunTimes s
        \<and> isPlaying (currentState (onStateChanged c now p s)) = JBool (isPlaying_get p)
        \<and> (reactorCallback c \<longrightarrow>
             map shownIsPlaying (reactorCalls (onStateChanged c now p s))
               = map shownIsPlaying (reactorCalls s) @ [JBool (isPlaying_get p)]))
   \<and> (reactorCallback c \<and> isPlaying (currentState s) = JBool False
      \<and> isPlaying_get p1 \<and> \<not> isPlaying_get p2 \<and> isPlaying_get p3
      \<and> isScrobblingAllowed p1 \<and> isStateChangeAllowed p1
      \<and> isScrobblingAllowed p2 \<and> isStateChangeAllowed p2
      \<and> isScrobblingAllowed p3 \<and> isStateChangeAllowed p3 \<longrightarrow>
        workerRuns (run c [Signal t1 p1, Signal t2 p2, Signal t3 p3] s) = workerRuns s + 3
        \<and> throttleTimer (run c [Signal t1 p1, Signal t2 p2, Signal t3 p3] s) = throttleTimer s
        \<and> throttledRunTimes (run c [Signal t1 p1, Signal t2 p2, Signal t3 p3] s) = throttledRunTimes s
        \<and> map shownIsPlaying (reactorCalls (run c [Signal t1 p1, Signal t2 p2, Signal t3 p3] s))
             = map shownIsPlaying (reactorCalls s) @ [JBool True, JBool False, JBool True])"
proof (intro conjI impI)
  assume h: "isScrobblingAllowed p \<and> isStateChangeAllowed p
      \<and> isPlaying (currentState s) \<noteq> JBool (isPlaying_get p)"
  note e = edge_step [OF h [THEN conjunct1] h [THEN conjunct2, THEN conjunct1]
      h [THEN conjunct2, THEN conjunct2]]
  show "onStateChanged c now p s = stateChangedWorker c p (s\<lparr>isStateReset := False\<rparr>)"
    by (rule e(1))
  show "workerRuns (onStateChanged c now p s) = Suc (workerRuns s)" by (rule e(2))
  show "throttleTimer (onStateChanged c now p s) = throttleTimer s" by (rule e(3))
  show "throttledRunTimes (onStateChanged c now p s) = throttledRunTimes s" by (rule e(4))
  show "isPlaying (currentState (onStateChanged c now p s)) = JBool (isPlaying_get p)" by (rule e(5))
  show "map shownIsPlaying (reactorCalls (onStateChanged c now p s))
               = map shownIsPlaying (reactorCalls s) @ [JBool (isPlaying_get p)]"
    if "reactorCallback c"
    using e(6) [OF that] e(7) by simp
next
  assume h: "reactorCallback c \<and> isPlaying (currentState s) = JBool False
      \<and> isPlaying_get p1 \<and> \<not> isPlaying_get p2 \<and> isPlaying_get p3
      \<and> isScrobblingAllowed p1 \<and> isStateChangeAllowed p1
      \<and> isScrobblingAllowed p2 \<and> isStateChangeAllowed p2
      \<and> isScrobblingAllowed p3 \<and> isStateChangeAllowed p3"
  let ?s1 = "onStateChanged c t1 p1 s"
  let ?s2 = "onStateChanged c t2 p2 ?s1"
  let ?s3 = "onStateChanged c t3 p3 ?s2"
  have r: "run c [Signal t1 p1, Signal t2 p2, Signal t3 p3] s = ?s3"
    by (simp add: run_def)
  have g: "isScrobblingAllowed p1" "isStateChangeAllowed p1" "isScrobblingAllowed p2"
    "isStateChangeAllowed p2" "isScrobblingAllowed p3" "isStateChangeAllowed p3"
    using h by simp_all
  have e1: "isPlaying (currentState s) \<noteq> JBool (isPlaying_get p1)" using h by simp
  note s1 = edge_step [OF g(1) g(2) e1]
  have e2: "isPlaying (currentState ?s1) \<noteq> JBool (isPlaying_get p2)"
    using h s1(5) by simp
  note s2 = edge_step [OF g(3) g(4) e2]
  have e3: "isPlaying (currentState ?s2) \<noteq> JBool (isPlaying_get p3)"
    using h s2(5) by simp
  note s3 = edge_step [OF g(5) g(6) e3]
  show "workerRuns (run c [Signal t1 p1, Signal t2 p2, Signal t3 p3] s) = workerRuns s + 3"
    using h by (simp add: r s1(2) s2(2) s3(2))
  show "throttleTimer (run c [Signal t1 p1, Signal t2 p2, Signal t3 p3] s) = throttleTimer s"
    using h by (simp add: r s1(3) s2(3) s3(3))
  show "throttledRunTimes (run c [Signal t1 p1, Signal t2 p2, Signal t3 p3] s) = throttledRunTimes s"
    using h by (simp add: r s1(4) s2(4) s3(4))
  show "map shownIsPlaying (reactorCalls (run c [Signal t1 p1, Signal t2 p2, Signal t3 p3] s))
             = map shownIsPlaying (reactorCalls s) @ [JBool True, JBool False, JBool True]"
    using h by (simp add: r s1(6,7) s2(6,7) s3(6,7))
qed

lemma pausedState_isPlaying: "isPlaying (currentState pausedState) = JBool False"
  by (simp add: pausedState_def worker_isPlaying page_defs)

theorem play_pause_edges_bypass_throttle_witness:
  "isScrobblingAllowed songPage \<and> isStateChangeAllowed songPage
   \<and> isPlaying (currentState pausedState) \<noteq> JBool (isPlaying_get songPage)
   \<and> reactorCallback baseConnector \<and> \<not> isPlaying_get pausedPage
   \<and> workerRuns (onStateChanged baseConnector 10 songPage pausedState) = Suc (workerRuns pausedState)
   \<and> throttleTimer (onStateChanged baseConnector 10 songPage pausedState) = throttleTimer pausedState
   \<and> workerRuns (run baseConnector [Signal 10 songPage, Signal 20 pausedPage, Signal 30 songPage] pausedState)
        = workerRuns pausedState + 3
   \<and> map shownIsPlaying (reactorCalls
        (run baseConnector [Signal 10 songPage, Signal 20 pausedPage, Signal 30 songPage] pausedState))
        = map shownIsPlaying (reactorCalls pausedState) @ [JBool True, JBool False, JBool True]"
proof -
  have h: "isScrobblingAllowed songPage" "isStateChangeAllowed songPage"
    "isScrobblingAllowed pausedPage" "isStateChangeAllowed pausedPage"
    "isPlaying_get songPage" "\<not> isPlaying_get pausedPage" "reactorCallback baseConnector"
    by (simp_all add: page_defs baseConnector_def)
  have a: "isScrobblingAllowed songPage \<and> isStateChangeAllowed songPage
      \<and> isPlaying (currentState pausedState) \<noteq> JBool (isPlaying_get songPage)"
    using h pausedState_isPlaying by simp
  have b: "reactorCallback baseConnector \<and> isPlaying (currentState pausedState) = JBool False
      \<and> isPlaying_get songPage \<and> \<not> isPlaying_get pausedPage \<and> isPlaying_get songPage
      \<and> isScrobblingAllowed songPage \<and> isStateChangeAllowed songPage
      \<and> isScrobblingAllowed pausedPage \<and> isStateChangeAllowed pausedPage
      \<and> isScrobblingAllowed songPage \<and> isStateChangeAllowed songPage"
    using h pausedState_isPlaying by simp
  note t = play_pause_edges_bypass_throttle [of songPage pausedState baseConnector 10
        songPage pausedPage songPage 10 20 30]
  note t1 = t [THEN conjunct1, rule_format, OF a]
  note t2 = t [THEN conjunct2, rule_format, OF b]
  show ?thesis
    using a h(6,7) t1 [THEN conjunct2, THEN conjunct1]
      t1 [THEN conjunct2, THEN conjunct2, THEN conjunct1]
      t2 [THEN conjunct1] t2 [THEN conjunct2, THEN conjunct2, THEN conjunct2]
    by blast
qed

section \<open>The reset flag\<close>

lemma worker_reset_calls:
  "filter isResetCall (reactorCalls (stateChangedWorker c p s)) = filter isResetCall (reactorCalls s)"
  by (simp add: worker_unfold [of c p s] Let_def filterState_others)

lemma resetState_when_reset: "isStateReset s \<Longrightarrow> resetState c s = s"
  by (simp add: resetState_def)

lemma step_keeps_reset:
  assumes "isStateReset s" and "\<not> accepted e"
  shows "isStateReset (step c s e)"
    and "filter isResetCall (reactorCalls (step c s e)) = filter isResetCall (reactorCalls s)"
proof -
  show "isStateReset (step c s e)"
    using assms
    by (cases e) (auto simp: onStateChanged_def resetState_def throttleTimerFires_def worker_others
        split: option.splits)
  show "filter isResetCall (reactorCalls (step c s e)) = filter isResetCall (reactorCalls s)"
    using assms
    by (cases e) (auto simp: onStateChanged_def resetState_def throttleTimerFires_def
        worker_reset_calls split: option.splits)
qed

lemma run_keeps_reset:
  "isStateReset s \<Longrightarrow> \<forall>e\<in>set es. \<not> accepted e \<Longrightarrow>
     isStateReset (run c es s)
     \<and> filter isResetCall (reactorCalls (run c es s)) = filter isResetCall (reactorCalls s)"
proof (induction es arbitrary: s)
  case Nil
  then show ?case by (simp add: run_def)
next
  case (Cons e es)
  have a: "isStateReset (step c s e)"
    and b: "filter isResetCall (reactorCalls (step c s e)) = filter isResetCall (reactorCalls s)"
    using Cons.prems step_keeps_reset [of s e c] by simp_all
  have "run c (e # es) s = run c es (step c s e)"
    by (simp add: run_def)
  then show ?case
    using Cons.IH [OF a] Cons.prems(2) b by simp
qed

lemma accepted_clears_flag:
  assumes "isScrobblingAllowed p" and "isStateChangeAllowed p"
  shows "\<not> isStateReset (onStateChanged c now p s)"
  using assms
  by (simp add: onStateChanged_def Let_def worker_others stateChangedWorkerThrottled_def
      split: option.splits)

text \<open>
  C2, as the code has it: once \<^verbatim>\<open>resetState\<close> has set the reset flag, no later call
  of \<^verbatim>\<open>resetState\<close> calls the reactor callback while no signal passes both gates,
  whatever else happens: signals that a gate turns away, direct resets, runs of the
  throttle's timer. A signal that passes both gates clears the flag, whether or not it
  leads to an evaluation or to a changed field; the next \<^verbatim>\<open>resetState\<close> then calls a
  registered reactor callback once, and the one after it does nothing.
\<close>

theorem reset_suppressed_until_accepted_signal:
  "isStateReset (resetState c s)
   \<and> (isStateReset s \<and> (\<forall>e\<in>set es. \<not> accepted e) \<longrightarrow>
        isStateReset (run c es s)
        \<and> filter isResetCall (reactorCalls (run c es s)) = filter isResetCall (reactorCalls s)
        \<and> resetState c (run c es s) = run c es s)
   \<and> (isScrobblingAllowed p \<and> isStateChangeAllowed p \<longrightarrow>
        \<not> isStateReset (onStateChanged c now p s)
        \<and> (reactorCallback c \<longrightarrow>
             reactorCalls (resetState c (onStateChanged c now p s))
               = reactorCalls (onStateChanged c now p s) @ [(EmptyObject, stateKeys)])
        \<and> resetState c (resetState c (onStateChanged c now p s))
             = resetState c (onStateChanged c now p s))"
proof (intro conjI impI)
  show r: "isStateReset (resetState c s)" for s
    by (simp add: resetState_def)
  show "resetState c (resetState c (onStateChanged c now p s)) = resetState c (onStateChanged c now p s)"
    by (rule resetState_when_reset) (rule r)
next
  assume a: "isStateReset s \<and> (\<forall>e\<in>set es. \<not> accepted e)"
  then have k: "isStateReset (run c es s)
     \<and> filter isResetCall (reactorCalls (run c es s)) = filter isResetCall (reactorCalls s)"
    using run_keeps_reset [of s es c] by simp
  show "isStateReset (run c es s)" using k by simp
  show "filter isResetCall (reactorCalls (run c es s)) = filter isResetCall (reactorCalls s)"
    using k by simp
  show "resetState c (run c es s) = run c es s"
    using k by (simp add: resetState_when_reset)
next
  assume a: "isScrobblingAllowed p \<and> isStateChangeAllowed p"
  show n: "\<not> isStateReset (onStateChanged c now p s)"
    using a by (simp add: accepted_clears_flag)
  show "reactorCalls (resetState c (onStateChanged c now p s))
               = reactorCalls (onStateChanged c now p s) @ [(EmptyObject, stateKeys)]"
    if "reactorCallback c"
    using n that by (simp add: resetState_def)
qed

theorem reset_suppressed_until_accepted_signal_witness:
  "isStateReset resetOnceState
   \<and> \<not> accepted (Signal 5 adPage) \<and> \<not> accepted ResetState \<and> \<not> accepted (Signal 10 unstablePage)
   \<and> isStateReset (run baseConnector [Signal 5 adPage, ResetState, Signal 10 unstablePage] resetOnceState)
   \<and> filter isResetCall (reactorCalls
        (run baseConnector [Signal 5 adPage, ResetState, Signal 10 unstablePage] resetOnceState))
        = filter isResetCall (reactorCalls resetOnceState)
   \<and> isScrobblingAllowed songPage \<and> isStateChangeAllowed songPage \<and> reactorCallback baseConnector
   \<and> \<not> isStateReset (onStateChanged baseConnector 20 songPage resetOnceState)
   \<and> reactorCalls (resetState baseConnector (onStateChanged baseConnector 20 songPage resetOnceState))
        = reactorCalls (onStateChanged baseConnector 20 songPage resetOnceState) @ [(EmptyObject, stateKeys)]"
proof -
  have a: "isStateReset resetOnceState
      \<and> (\<forall>e\<in>set [Signal 5 adPage, ResetState, Signal 10 unstablePage]. \<not> accepted e)"
    by (simp add: resetOnceState_def resetState_def page_defs)
  have b: "isScrobblingAllowed songPage \<and> isStateChangeAllowed songPage"
    by (simp add: page_defs)
  have c: "reactorCallback baseConnector"
    by (simp add: baseConnector_def)
  note t = reset_suppressed_until_accepted_signal [of baseConnector resetOnceState
      "[Signal 5 adPage, ResetState, Signal 10 unstablePage]" songPage 20]
  note t1 = t [THEN conjunct2, THEN conjunct1, THEN mp, OF a]
  note t2 = t [THEN conjunct2, THEN conjunct2, THEN mp, OF b]
  have d: "\<not> accepted (Signal 5 adPage)" "\<not> accepted ResetState"
    "\<not> accepted (Signal 10 unstablePage)"
    using a by simp_all
  show ?thesis
    using a d b c t1 [THEN conjunct1] t1 [THEN conjunct2, THEN conjunct1] t2 [THEN conjunct1]
      t2 [THEN conjunct2, THEN conjunct1, THEN mp, OF c]
    by blast
qed

text \<open>
  C2 as stated fails: after a reset that called the reactor callback, a signal passes both
  gates while nothing is on the page. No field has changed, whether the worker has not
  run yet or the timer has run it, and yet the next reset calls the reactor callback again.
\<close>

lemma resetOnceState_value:
  "resetOnceState = initialState\<lparr>isStateReset := True, reactorCalls := [(EmptyObject, stateKeys)]\<rparr>"
  by (simp add: resetOnceState_def resetState_def initialState_def baseConnector_def)

lemma signalledState_value:
  "signalledState = initialState\<lparr>throttleTimer := Some 500, reactorCalls := [(EmptyObject, stateKeys)]\<rparr>"
  by (simp add: signalledState_def resetOnceState_value onStateChanged_def page_defs
      initialState_def defaultState_def strict_eq_def stateChangedWorkerThrottled_def)

lemma evaluatedState_value:
  "evaluatedState = initialState\<lparr>reactorCalls := [(EmptyObject, stateKeys)], workerRuns := 1,
     throttledRunTimes := [500]\<rparr>"
  by (simp add: evaluatedState_def signalledState_value throttleTimerFires_def page_defs
      worker_defs)

theorem reset_repeats_without_change_counterexample:
  "reactorCalls resetOnceState = [(EmptyObject, stateKeys)]
   \<and> workerRuns signalledState = workerRuns resetOnceState
   \<and> currentState signalledState = currentState resetOnceState
   \<and> changedFieldsOf baseConnector emptyPage resetOnceState = []
   \<and> reactorCalls (resetState baseConnector signalledState)
        = [(EmptyObject, stateKeys), (EmptyObject, stateKeys)]
   \<and> changedFieldsOf baseConnector emptyPage signalledState = []
   \<and> currentState evaluatedState = currentState resetOnceState
   \<and> reactorCalls (resetState baseConnector evaluatedState)
        = [(EmptyObject, stateKeys), (EmptyObject, stateKeys)]"
  by (simp add: resetOnceState_value signalledState_value evaluatedState_value
      changedFieldsOf_def resetState_def page_defs worker_defs)

section \<open>The throttle\<close>

lemma throttled_step:
  assumes "throttled s (Signal now p)"
  shows "onStateChanged c now p s
           = s\<lparr>isStateReset := False, throttleTimer := Some (windowEnd s now)\<rparr>"
  using assms
  by (auto simp: onStateChanged_def Let_def strict_eq_def stateChangedWorkerThrottled_def
      windowEnd_def split: option.splits)

lemma throttled_run:
  assumes "throttleTimer s = Some due" and "\<forall>e\<in>set es. throttled s e"
  shows "run c es s = s \<or> run c es s = s\<lparr>isStateReset := False\<rparr>"
  using assms
proof (induction es arbitrary: s)
  case Nil
  then show ?case by (simp add: run_def)
next
  case (Cons e es)
  from Cons.prems(2) obtain now p where e: "e = Signal now p"
    by (cases e) auto
  have st: "step c s e = s\<lparr>isStateReset := False\<rparr>"
    using Cons.prems e throttled_step [of s now p c] by (simp add: windowEnd_def)
  have t: "throttleTimer (step c s e) = Some due"
    using st Cons.prems(1) by simp
  have th: "\<forall>e'\<in>set es. throttled (step c s e) e'"
  proof
    fix e' assume "e' \<in> set es"
    then have "throttled s e'" using Cons.prems(2) by simp
    then show "throttled (step c s e) e'"
      by (cases e') (simp_all add: st)
  qed
  have "run c (e # es) s = run c es (step c s e)"
    by (simp add: run_def)
  then show ?case
    using Cons.IH [OF t th] st by auto
qed

lemma throttled_burst:
  assumes "throttled s (Signal now p)" and "\<forall>e\<in>set rest. throttled s e"
  shows "run c (Signal now p # rest) s
           = s\<lparr>isStateReset := False, throttleTimer := Some (windowEnd s now)\<rparr>"
proof -
  let ?s1 = "s\<lparr>isStateReset := False, throttleTimer := Some (windowEnd s now)\<rparr>"
  have a: "run c (Signal now p # rest) s = run c rest ?s1"
    using throttled_step [OF assms(1), of c] by (simp add: run_def)
  have th: "\<forall>e\<in>set rest. throttled ?s1 e"
  proof
    fix e assume "e \<in> set rest"
    then have "throttled s e" using assms(2) by simp
    then show "throttled ?s1 e" by (cases e) simp_all
  qed
  have "run c rest ?s1 = ?s1 \<or> run c rest ?s1 = ?s1\<lparr>isStateReset := False\<rparr>"
    by (rule throttled_run [OF _ th]) simp
  then show ?thesis using a by auto
qed

lemma timer_fires:
  assumes "throttleTimer s = Some due" and "due \<le> t"
  shows "throttleTimerFires c t p s
           = stateChangedWorker c p (s\<lparr>throttleTimer := None, throttledRunTimes := t # throttledRunTimes s\<rparr>)"
    and "workerRuns (throttleTimerFires c t p s) = Suc (workerRuns s)"
    and "throttleTimer (throttleTimerFires c t p s) = None"
  using assms by (simp_all add: throttleTimerFires_def worker_others)

lemma timer_early:
  assumes "throttleTimer s = Some due" and "t < due"
  shows "throttleTimerFires c t p s = s"
  using assms by (simp add: throttleTimerFires_def)

lemma timer_none: "throttleTimer s = None \<Longrightarrow> throttleTimerFires c t p s = s"
  by (simp add: throttleTimerFires_def)

lemma throttleInv_mono: "throttleInv t s \<Longrightarrow> t \<le> t' \<Longrightarrow> throttleInv t' s"
  by (fastforce simp: throttleInv_def split: option.splits)

lemma throttleInv_cong:
  "throttleTimer s' = throttleTimer s \<Longrightarrow> throttledRunTimes s' = throttledRunTimes s \<Longrightarrow>
   throttleInv t s' = throttleInv t s"
  by (simp add: throttleInv_def split: option.splits)

lemma resetState_throttle:
  "throttleTimer (resetState c s) = throttleTimer s"
  "throttledRunTimes (resetState c s) = throttledRunTimes s"
  by (simp_all add: resetState_def)

lemma onStateChanged_inv:
  assumes "throttleInv t s" and "t \<le> now"
  shows "throttleInv now (onStateChanged c now p s)"
proof -
  have i: "throttleInv now s" using assms by (rule throttleInv_mono)
  consider (reset) "\<not> isScrobblingAllowed p"
    | (ignore) "isScrobblingAllowed p" "\<not> isStateChangeAllowed p"
    | (edge) "isScrobblingAllowed p" "isStateChangeAllowed p"
        "isPlaying (currentState s) \<noteq> JBool (isPlaying_get p)"
    | (thr) "throttled s (Signal now p)"
    by auto
  then show ?thesis
  proof cases
    case reset
    then have "onStateChanged c now p s = resetState c s"
      by (simp add: onStateChanged_def)
    then show ?thesis using i by (simp add: throttleInv_cong [OF resetState_throttle])
  next
    case ignore
    then show ?thesis using i by (simp add: onStateChanged_def)
  next
    case edge
    note e = edge_step [OF edge]
    show ?thesis using i by (simp add: throttleInv_cong [OF e(3) e(4)])
  next
    case thr
    show ?thesis
      using i by (fastforce simp: throttled_step [OF thr] throttleInv_def windowEnd_def
          split: option.splits)
  qed
qed

lemma spaced_new: "spaced l \<Longrightarrow> \<forall>e\<in>set l. e + 500 \<le> a \<Longrightarrow> spaced (a # l)"
  by (cases l) simp_all

lemma throttleTimerFires_inv:
  assumes "throttleInv t s" and "t \<le> now"
  shows "throttleInv now (throttleTimerFires c now p s)"
proof -
  have i: "throttleInv now s" using assms by (rule throttleInv_mono)
  show ?thesis
  proof (cases "throttleTimer s")
    case None
    then show ?thesis using i by (simp add: timer_none)
  next
    case (Some due)
    show ?thesis
    proof (cases "due \<le> now")
      case False
      then show ?thesis using i Some by (simp add: timer_early)
    next
      case True
      let ?s1 = "s\<lparr>throttleTimer := None, throttledRunTimes := now # throttledRunTimes s\<rparr>"
      have "\<forall>e\<in>set (throttledRunTimes s). e + 500 \<le> now"
        using i Some True by (fastforce simp: throttleInv_def)
      then have "throttleInv now ?s1"
        using i by (simp add: throttleInv_def spaced_new)
      moreover have "throttleInv now (stateChangedWorker c p ?s1) = throttleInv now ?s1"
        by (rule throttleInv_cong) (simp_all add: worker_others)
      ultimately show ?thesis
        using timer_fires(1) [OF Some True] by simp
    qed
  qed
qed

lemma run_throttleInv:
  "timed t es \<Longrightarrow> throttleInv t s \<Longrightarrow> spaced (throttledRunTimes (run c es s))"
proof (induction es arbitrary: t s)
  case Nil
  then show ?case by (simp add: run_def throttleInv_def)
next
  case (Cons e es)
  have r: "run c (e # es) s = run c es (step c s e)"
    by (simp add: run_def)
  show ?case
  proof (cases e)
    case (Signal now p)
    then have "t \<le> now" "timed now es" using Cons.prems(1) by simp_all
    then show ?thesis
      using Cons.IH [of now "step c s e"] onStateChanged_inv [OF Cons.prems(2)] Signal r by simp
  next
    case (TimerFires now p)
    then have "t \<le> now" "timed now es" using Cons.prems(1) by simp_all
    then show ?thesis
      using Cons.IH [of now "step c s e"] throttleTimerFires_inv [OF Cons.prems(2)] TimerFires r
      by simp
  next
    case ResetState
    then have "timed t es" using Cons.prems(1) by simp
    moreover have "throttleInv t (step c s e)"
      using Cons.prems(2) ResetState by (simp add: throttleInv_cong [OF resetState_throttle])
    ultimately show ?thesis
      using Cons.IH [of t "step c s e"] r by simp
  qed
qed

lemma initial_throttleInv: "throttleInv 0 initialState"
  by (simp add: throttleInv_def initialState_def)

text \<open>
  C6: a signal that passes both gates and is not a play/pause edge never runs the worker
  itself. After one such signal and any number of further ones, all that has changed is
  that the reset flag is down and that one timer is pending, due at the end of the window
  the first of them fell in: the further signals neither move it nor add another. When
  the event loop runs that timer, at its due time or later, the worker runs exactly once,
  on the page as it is then, and no timer is left, so that a second run of the timer does
  nothing; before its due time the timer does not run. And in every trace whose clock
  never runs backwards, started from a new connector, the runs of the throttled worker
  are at least 500 ms apart.
\<close>

theorem throttle_coalesces_signals:
  "(throttled s (Signal now p) \<and> (\<forall>e\<in>set rest. throttled s e) \<longrightarrow>
      run c (Signal now p # rest) s
        = s\<lparr>isStateReset := False, throttleTimer := Some (windowEnd s now)\<rparr>
      \<and> workerRuns (run c (Signal now p # rest) s) = workerRuns s
      \<and> (windowEnd s now \<le> t \<longrightarrow>
           throttleTimerFires c t p' (run c (Signal now p # rest) s)
             = stateChangedWorker c p' (s\<lparr>isStateReset := False, throttleTimer := None,
                 throttledRunTimes := t # throttledRunTimes s\<rparr>)
           \<and> workerRuns (throttleTimerFires c t p' (run c (Signal now p # rest) s)) = Suc (workerRuns s)
           \<and> throttleTimer (throttleTimerFires c t p' (run c (Signal now p # rest) s)) = None
           \<and> throttleTimerFires c t2 p2 (throttleTimerFires c t p' (run c (Signal now p # rest) s))
               = throttleTimerFires c t p' (run c (Signal now p # rest) s))
      \<and> (t < windowEnd s now \<longrightarrow>
           throttleTimerFires c t p' (run c (Signal now p # rest) s) = run c (Signal now p # rest) s))
   \<and> (timed 0 es \<longrightarrow> spaced (throttledRunTimes (run c es initialState)))"
proof (intro conjI impI)
  assume a: "throttled s (Signal now p) \<and> (\<forall>e\<in>set rest. throttled s e)"
  let ?s1 = "s\<lparr>isStateReset := False, throttleTimer := Some (windowEnd s now)\<rparr>"
  show b: "run c (Signal now p # rest) s = ?s1"
    using a by (simp add: throttled_burst)
  show "workerRuns (run c (Signal now p # rest) s) = workerRuns s"
    by (simp add: b)
  have tm: "throttleTimer ?s1 = Some (windowEnd s now)" by simp
  show "throttleTimerFires c t p' (run c (Signal now p # rest) s) = run c (Signal now p # rest) s"
    if "t < windowEnd s now"
    using timer_early [OF tm that] by (simp add: b)
  assume d: "windowEnd s now \<le> t"
  show f: "throttleTimerFires c t p' (run c (Signal now p # rest) s)
             = stateChangedWorker c p' (s\<lparr>isStateReset := False, throttleTimer := None,
                 throttledRunTimes := t # throttledRunTimes s\<rparr>)"
    using timer_fires(1) [OF tm d] by (simp add: b)
  show "workerRuns (throttleTimerFires c t p' (run c (Signal now p # rest) s)) = Suc (workerRuns s)"
    using timer_fires(2) [OF tm d] by (simp add: b)
  show n: "throttleTimer (throttleTimerFires c t p' (run c (Signal now p # rest) s)) = None"
    using timer_fires(3) [OF tm d] by (simp add: b)
  show "throttleTimerFires c t2 p2 (throttleTimerFires c t p' (run c (Signal now p # rest) s))
               = throttleTimerFires c t p' (run c (Signal now p # rest) s)"
    using n by (rule timer_none)
next
  assume "timed 0 es"
  then show "spaced (throttledRunTimes (run c es initialState))"
    using initial_throttleInv by (rule run_throttleInv)
qed

theorem throttle_coalesces_signals_witness:
  "throttled songState (Signal 100 songPage)
   \<and> throttled songState (Signal 200 songPage) \<and> throttled songState (Signal 450 songPage)
   \<and> windowEnd songState 100 = 600
   \<and> workerRuns (run baseConnector [Signal 100 songPage, Signal 200 songPage, Signal 450 songPage] songState)
        = workerRuns songState
   \<and> workerRuns (throttleTimerFires baseConnector 600 pausedPage
        (run baseConnector [Signal 100 songPage, Signal 200 songPage, Signal 450 songPage] songState))
        = Suc (workerRuns songState)
   \<and> throttleTimerFires baseConnector 599 pausedPage
        (run baseConnector [Signal 100 songPage, Signal 200 songPage, Signal 450 songPage] songState)
        = run baseConnector [Signal 100 songPage, Signal 200 songPage, Signal 450 songPage] songState
   \<and> timed 0 [Signal 100 songPage, Signal 200 songPage, TimerFires 600 songPage,
               Signal 700 pausedPage, Signal 800 pausedPage, TimerFires 1300 songPage]
   \<and> spaced (throttledRunTimes (run baseConnector
        [Signal 100 songPage, Signal 200 songPage, TimerFires 600 songPage,
         Signal 700 pausedPage, Signal 800 pausedPage, TimerFires 1300 songPage] initialState))"
proof -
  have a: "throttled songState (Signal 100 songPage)
      \<and> (\<forall>e\<in>set [Signal 200 songPage, Signal 450 songPage]. throttled songState e)"
    by (simp add: songState_value page_defs)
  have w: "windowEnd songState 100 = 600"
    by (simp add: windowEnd_def songState_value)
  have b: "timed 0 [Signal 100 songPage, Signal 200 songPage, TimerFires 600 songPage,
               Signal 700 pausedPage, Signal 800 pausedPage, TimerFires 1300 songPage]"
    by simp
  note t = throttle_coalesces_signals [of songState 100 songPage
      "[Signal 200 songPage, Signal 450 songPage]" baseConnector _ pausedPage 0 emptyPage
      "[Signal 100 songPage, Signal 200 songPage, TimerFires 600 songPage,
        Signal 700 pausedPage, Signal 800 pausedPage, TimerFires 1300 songPage]"]
  note t1 = t [THEN conjunct1, THEN mp, OF a]
  have le: "windowEnd songState 100 \<le> 600" and lt: "599 < windowEnd songState 100"
    using w by simp_all
  have d: "throttled songState (Signal 200 songPage)" "throttled songState (Signal 450 songPage)"
    using a by simp_all
  show ?thesis
    using a d w b t1 [of 600, THEN conjunct2, THEN conjunct1]
      t1 [of 600, THEN conjunct2, THEN conjunct2, THEN conjunct1, THEN mp, OF le, THEN conjunct2, THEN conjunct1]
      t1 [of 599, THEN conjunct2, THEN conjunct2, THEN conjunct2, THEN mp, OF lt]
      t [of 0, THEN conjunct2, THEN mp, OF b]
    by blast
qed

section \<open>The song pipeline\<close>

lemma mutatedBy_0: "mutatedBy stages 0 song = song"
  by (simp add: mutatedBy_def)

lemma mutatedBy_Suc: "mutatedBy (st # rest) (Suc n) song = mutatedBy rest n (fst (st song))"
  by (simp add: mutatedBy_def)

lemma processFrom_rejects:
  "j < length stages \<Longrightarrow> snd ((stages ! j) (mutatedBy stages j song)) = Some e \<Longrightarrow>
   \<forall>k<j. snd ((stages ! k) (mutatedBy stages k song)) = None \<Longrightarrow>
   processFrom i stages song started
     = (mutatedBy stages (Suc j) song, started @ [i..<i + Suc j], Some e)"
proof (induction stages arbitrary: i j song started)
  case Nil
  then show ?case by simp
next
  case (Cons st rest)
  show ?case
  proof (cases j)
    case 0
    then have "snd (st song) = Some e"
      using Cons.prems(2) by (simp add: mutatedBy_0)
    then show ?thesis
      using 0 by (cases "st song") (simp add: mutatedBy_Suc mutatedBy_0)
  next
    case (Suc j')
    have s0: "snd (st song) = None"
      using Cons.prems(3) [rule_format, of 0] Suc by (simp add: mutatedBy_0)
    have a: "j' < length rest" using Cons.prems(1) Suc by simp
    have b: "snd ((rest ! j') (mutatedBy rest j' (fst (st song)))) = Some e"
      using Cons.prems(2) Suc by (simp add: mutatedBy_Suc)
    have c: "\<forall>k<j'. snd ((rest ! k) (mutatedBy rest k (fst (st song)))) = None"
    proof (intro allI impI)
      fix k assume "k < j'"
      then show "snd ((rest ! k) (mutatedBy rest k (fst (st song)))) = None"
        using Cons.prems(3) [rule_format, of "Suc k"] Suc by (simp add: mutatedBy_Suc)
    qed
    have "processFrom i (st # rest) song started
            = processFrom (Suc i) rest (fst (st song)) (started @ [i])"
      using s0 by (cases "st song") simp
    also have "\<dots> = (mutatedBy rest (Suc j') (fst (st song)),
                      (started @ [i]) @ [Suc i..<Suc i + Suc j'], Some e)"
      by (rule Cons.IH [OF a b c])
    finally show ?thesis
      using Suc by (simp add: mutatedBy_Suc upt_conv_Cons del: processFrom.simps upt_Suc)
  qed
qed

lemma processFrom_completes:
  "\<forall>k<length stages. snd ((stages ! k) (mutatedBy stages k song)) = None \<Longrightarrow>
   processFrom i stages song started
     = (mutatedBy stages (length stages) song, started @ [i..<i + length stages], None)"
proof (induction stages arbitrary: i song started)
  case Nil
  then show ?case by (simp add: mutatedBy_0)
next
  case (Cons st rest)
  have s0: "snd (st song) = None"
    using Cons.prems [rule_format, of 0] by (simp add: mutatedBy_0)
  have c: "\<forall>k<length rest. snd ((rest ! k) (mutatedBy rest k (fst (st song)))) = None"
  proof (intro allI impI)
    fix k assume "k < length rest"
    then show "snd ((rest ! k) (mutatedBy rest k (fst (st song)))) = None"
      using Cons.prems [rule_format, of "Suc k"] by (simp add: mutatedBy_Suc)
  qed
  have "processFrom i (st # rest) song started
          = processFrom (Suc i) rest (fst (st song)) (started @ [i])"
    using s0 by (cases "st song") simp
  also have "\<dots> = (mutatedBy rest (length rest) (fst (st song)),
                    (started @ [i]) @ [Suc i..<Suc i + length rest], None)"
    by (rule Cons.IH [OF c])
  finally show ?case
    by (simp add: mutatedBy_Suc upt_conv_Cons del: processFrom.simps upt_Suc)
qed

text \<open>
  C9: when the stage at position \<open>j\<close> is the first to reject, on the track as the
  stages before it have left it, \<^verbatim>\<open>process\<close> has run the stages at the positions
  \<open>0, \<dots>, j\<close> in this order and no other, the caller receives that stage's rejection,
  and the track carries the mutations of all the stages that ran. When no stage rejects,
  all stages have run, in registration order.
\<close>

theorem pipeline_runs_in_order_and_aborts_on_rejection:
  "(j < length stages \<and> snd ((stages ! j) (mutatedBy stages j song)) = Some e
      \<and> (\<forall>k<j. snd ((stages ! k) (mutatedBy stages k song)) = None) \<longrightarrow>
        process stages song = (mutatedBy stages (Suc j) song, [0..<Suc j], Some e))
   \<and> ((\<forall>k<length stages. snd ((stages ! k) (mutatedBy stages k song)) = None) \<longrightarrow>
        process stages song = (mutatedBy stages (length stages) song, [0..<length stages], None))"
  using processFrom_rejects [of j stages song e 0 "[]"] processFrom_completes [of stages song 0 "[]"]
  by (simp add: process_def)

theorem pipeline_runs_in_order_and_aborts_on_rejection_witness:
  "(0::nat) < length [tagThenReject, tagOnly]
   \<and> snd (([tagThenReject, tagOnly] ! 0) (mutatedBy [tagThenReject, tagOnly] 0 [])) = Some ''rejected''
   \<and> process [tagThenReject, tagOnly] [] = ([''first''], [0], Some ''rejected'')
   \<and> process [tagOnly, tagOnly] [] = ([''second'', ''second''], [0, 1], None)"
proof -
  have a: "(0::nat) < length [tagThenReject, tagOnly]
     \<and> snd (([tagThenReject, tagOnly] ! 0) (mutatedBy [tagThenReject, tagOnly] 0 [])) = Some ''rejected''
     \<and> (\<forall>k<0::nat. snd (([tagThenReject, tagOnly] ! k) (mutatedBy [tagThenReject, tagOnly] k [])) = None)"
    by (simp add: tagThenReject_def mutatedBy_def)
  have b: "\<forall>k<length [tagOnly, tagOnly]. snd (([tagOnly, tagOnly] ! k) (mutatedBy [tagOnly, tagOnly] k [])) = None"
    by (auto simp: tagOnly_def less_Suc_eq)
  have m: "mutatedBy [tagThenReject, tagOnly] (Suc 0) [] = [''first'']"
    "mutatedBy [tagOnly, tagOnly] (length [tagOnly, tagOnly]) [] = [''second'', ''second'']"
    by (simp_all add: mutatedBy_def tagThenReject_def tagOnly_def)
  show ?thesis
    using pipeline_runs_in_order_and_aborts_on_rejection [of 0 "[tagThenReject, tagOnly]" "[]" "''rejected''",
        THEN conjunct1, THEN mp, OF a]
      pipeline_runs_in_order_and_aborts_on_rejection [of 0 "[tagOnly, tagOnly]" "[]" "''x''",
        THEN conjunct2, THEN mp, OF b] a m
    by (simp add: upt_rec)
qed

end
